(* ===== verification/Prelude.thy ===== *)
theory Prelude
  imports Main "HOL-Library.Word" "HOL-Library.List_Lexorder" "HOL-Library.Char_ord" "HOL-Library.Sublist"
begin

unbundle bit_operations_syntax

section \<open>Shared vocabulary and automation\<close>

text \<open>
  What every theory of the development shares: the fact collections the component proofs
  use, the type names of the machine, the errors by which a C program leaves the
  model (a failed \<^verbatim>\<open>assert\<close>, an access the language leaves undefined), sequencing of
  fallible computations, and little-endian byte images of machine words.
\<close>

named_theorems call_simps \<open>unfolding of the traces of library calls\<close>
named_theorems codec_simps \<open>lengths and round trips of byte images\<close>
named_theorems step_defs \<open>definitions of single steps of a component\<close>

type_synonym byte = "8 word"
type_synonym u16 = "16 word"
type_synonym u32 = "32 word"
type_synonym u64 = "64 word"

text \<open>
  How a C program can stop being a program: an \<^verbatim>\<open>assert\<close> fails (the process aborts), a
  null pointer is dereferenced, a copy runs past the end of an array, a string is read that
  has no terminator inside its array, or an integer is divided by zero.
\<close>

datatype fault =
    Assert_Failed
  | Null_Deref
  | Buffer_Overflow
  | Unterminated
  | Div_By_Zero

subsection \<open>Fallible computations\<close>

definition bind_res :: "'e + 'a \<Rightarrow> ('a \<Rightarrow> 'e + 'b) \<Rightarrow> 'e + 'b" where
  "bind_res r f = (case r of Inl e \<Rightarrow> Inl e | Inr a \<Rightarrow> f a)"

lemma bind_res_simps [simp]:
  "bind_res (Inl e) f = Inl e"
  "bind_res (Inr a) f = f a"
  by (simp_all add: bind_res_def)

lemma bind_res_Inr_iff:
  "bind_res r f = Inr b \<longleftrightarrow> (\<exists>a. r = Inr a \<and> f a = Inr b)"
  by (cases r) auto

lemma bind_res_assoc:
  "bind_res (bind_res r f) g = bind_res r (\<lambda>a. bind_res (f a) g)"
  by (cases r) auto

definition require :: "bool \<Rightarrow> 'e \<Rightarrow> 'e + unit" where
  "require b e = (if b then Inr () else Inl e)"

lemma require_simps [simp]:
  "require True e = Inr ()"
  "require False e = Inl e"
  by (simp_all add: require_def)

lemma require_Inr_iff: "require b e = Inr u \<longleftrightarrow> b"
  by (simp add: require_def)

subsection \<open>Little-endian images of words\<close>

text \<open>
  \<open>le_bytes n w\<close> is what \<^verbatim>\<open>memcpy\<close> of an \<open>n\<close>-byte integer stores on the machines the
  repository is built for (x86-64), and \<open>le_word\<close> what a load of these bytes reads.
\<close>

fun le_bytes :: "nat \<Rightarrow> 'a::len word \<Rightarrow> byte list" where
  "le_bytes 0 w = []"
| "le_bytes (Suc n) w = ucast w # le_bytes n (drop_bit 8 w)"

fun le_word :: "byte list \<Rightarrow> 'a::len word" where
  "le_word [] = 0"
| "le_word (b # bs) = ucast b OR push_bit 8 (le_word bs)"

lemma length_le_bytes [simp, codec_simps]: "length (le_bytes n w) = n"
  by (induction n arbitrary: w) auto

lemma bit_le_word_le_bytes:
  "bit (le_word (le_bytes n w) :: 'a::len word) i \<longleftrightarrow> i < 8 * n \<and> bit (w :: 'a word) i"
proof (induction n arbitrary: w i)
  case 0
  then show ?case by simp
next
  case (Suc n)
  show ?case
  proof (cases "i < 8")
    case True
    then show ?thesis
      by (auto simp: bit_simps dest: bit_imp_le_length)
  next
    case False
    then show ?thesis
      by (auto simp: bit_simps Suc.IH dest: bit_imp_le_length)
  qed
qed

lemma le_word_le_bytes [codec_simps]:
  assumes "LENGTH('a::len) \<le> 8 * n"
  shows "le_word (le_bytes n (w :: 'a word)) = w"
proof (rule bit_word_eqI)
  fix i
  assume "i < LENGTH('a)"
  with assms show "bit (le_word (le_bytes n w) :: 'a word) i = bit w i"
    by (simp add: bit_le_word_le_bytes)
qed

end
