(* ===== verification/Std_Map.thy ===== *)
theory Std_Map
  imports Prelude
begin

section \<open>The containers of the C++ library\<close>

text \<open>
  \<^verbatim>\<open>std::map\<close> keeps its entries in key order, one per key; \<^verbatim>\<open>std::multimap\<close> keeps equal
  keys in insertion order. Both are lists of entries here, so that iterating over one
  visits the entries in the order the program does. The locale \<open>dictionary\<close> is what the
  programs rely on; \<open>sm\<close> is the interpretation on the ordered list.
\<close>

type_synonym ('k, 'v) stdmap = "('k \<times> 'v) list"

subsection \<open>The interface\<close>

locale dictionary =
  fixes nothing :: 'm
    and find :: "'m \<Rightarrow> 'k \<Rightarrow> 'v option"
    and put :: "'k \<Rightarrow> 'v \<Rightarrow> 'm \<Rightarrow> 'm"
    and erase :: "'k \<Rightarrow> 'm \<Rightarrow> 'm"
    and wf :: "'m \<Rightarrow> bool"
  assumes wf_nothing: "wf nothing"
    and wf_put: "wf m \<Longrightarrow> wf (put k v m)"
    and wf_erase: "wf m \<Longrightarrow> wf (erase k m)"
    and find_nothing: "find nothing k = None"
    and find_put: "wf m \<Longrightarrow> find (put k v m) k' = (if k' = k then Some v else find m k')"
    and find_erase: "wf m \<Longrightarrow> find (erase k m) k' = (if k' = k then None else find m k')"
begin

lemma wf_fold_put: "wf m \<Longrightarrow> wf (fold (\<lambda>(k, v). put k v) kvs m)"
  by (induction kvs arbitrary: m) (auto intro: wf_put)

lemma find_fold_put_const:
  "wf m \<Longrightarrow> find (fold (\<lambda>k. put k v) ks m) k' = (if k' \<in> set ks then Some v else find m k')"
  by (induction ks arbitrary: m) (auto simp: find_put wf_put)

lemma wf_fold_put_const: "wf m \<Longrightarrow> wf (fold (\<lambda>k. put k v) ks m)"
  by (induction ks arbitrary: m) (auto intro: wf_put)

lemma erase_put: "wf m \<Longrightarrow> find m k = None \<Longrightarrow> find (erase k (put k v m)) = find m"
  by (rule ext) (simp add: find_erase find_put wf_put)

end

subsection \<open>The ordered list\<close>

fun sm_put :: "'k::linorder \<Rightarrow> 'v \<Rightarrow> ('k, 'v) stdmap \<Rightarrow> ('k, 'v) stdmap" where
  "sm_put k v [] = [(k, v)]"
| "sm_put k v ((k', v') # m) =
     (if k < k' then (k, v) # (k', v') # m
      else if k = k' then (k, v) # m
      else (k', v') # sm_put k v m)"

fun sm_erase :: "'k::linorder \<Rightarrow> ('k, 'v) stdmap \<Rightarrow> ('k, 'v) stdmap" where
  "sm_erase k [] = []"
| "sm_erase k ((k', v') # m) = (if k = k' then m else (k', v') # sm_erase k m)"

definition sm_wf :: "('k::linorder, 'v) stdmap \<Rightarrow> bool" where
  "sm_wf m \<longleftrightarrow> sorted_wrt (<) (map fst m)"

text \<open>\<^verbatim>\<open>operator[]\<close> used as an rvalue: a missing key is inserted with the zero value.\<close>

definition sm_index :: "'v \<Rightarrow> ('k::linorder, 'v) stdmap \<Rightarrow> 'k \<Rightarrow> 'v \<times> ('k, 'v) stdmap" where
  "sm_index z m k = (case map_of m k of Some v \<Rightarrow> (v, m) | None \<Rightarrow> (z, sm_put k z m))"

lemma keys_sm_put: "fst ` set (sm_put k v m) = insert k (fst ` set m)"
  by (induction k v m rule: sm_put.induct) auto

lemma keys_sm_erase: "fst ` set (sm_erase k m) \<subseteq> fst ` set m"
  by (induction k m rule: sm_erase.induct) auto

lemma sm_wf_put: "sm_wf m \<Longrightarrow> sm_wf (sm_put k v m)"
proof (induction k v m rule: sm_put.induct)
  case (1 k v)
  then show ?case by (simp add: sm_wf_def)
next
  case (2 k v k' v' m)
  have keys: "fst ` set (sm_put k v m) = insert k (fst ` set m)" by (rule keys_sm_put)
  from 2 show ?case
    using keys by (auto simp: sm_wf_def not_less less_le)
qed

lemma sm_wf_erase: "sm_wf m \<Longrightarrow> sm_wf (sm_erase k m)"
proof (induction k m rule: sm_erase.induct)
  case (1 k)
  then show ?case by simp
next
  case (2 k k' v' m)
  then have wf: "sm_wf (sm_erase k m)" if "k \<noteq> k'"
    using that by (simp add: sm_wf_def)
  have "\<forall>y \<in> fst ` set (sm_erase k m). k' < y"
    using keys_sm_erase [of k m] 2(2) by (auto 0 3 simp: sm_wf_def)
  with 2(2) wf show ?case by (simp add: sm_wf_def)
qed

lemma map_of_sm_put: "sm_wf m \<Longrightarrow> map_of (sm_put k v m) k' = (if k' = k then Some v else map_of m k')"
  by (induction k v m rule: sm_put.induct) (auto simp: sm_wf_def)

lemma map_of_sm_erase: "sm_wf m \<Longrightarrow> map_of (sm_erase k m) k' = (if k' = k then None else map_of m k')"
proof (induction k m rule: sm_erase.induct)
  case (1 k)
  then show ?case by simp
next
  case (2 k k1 v1 m)
  have "map_of m k1 = None" if "sm_wf ((k1, v1) # m)"
    using that by (force simp: sm_wf_def map_of_eq_None_iff)
  with 2 show ?case by (auto simp: sm_wf_def)
qed

interpretation sm: dictionary "[]" map_of sm_put sm_erase sm_wf
  by unfold_locales
    (auto simp: sm_wf_put sm_wf_erase map_of_sm_put map_of_sm_erase, simp add: sm_wf_def)

lemmas sm_laws = sm.wf_nothing sm.wf_put sm.wf_erase sm.find_put sm.find_erase

lemma sm_wf_index: "sm_wf m \<Longrightarrow> sm_index z m k = (v, m') \<Longrightarrow> sm_wf m'"
  by (auto simp: sm_index_def sm_laws split: option.splits)

lemma sm_index_find:
  "sm_wf m \<Longrightarrow> sm_index z m k = (v, m') \<Longrightarrow>
     v = (case map_of m k of Some x \<Rightarrow> x | None \<Rightarrow> z) \<and> map_of m' = (map_of m)(k \<mapsto> v)"
  by (auto simp: sm_index_def sm_laws fun_eq_iff split: option.splits)

lemma sm_wf_entry: "sm_wf m \<Longrightarrow> (k, v) \<in> set m \<longleftrightarrow> map_of m k = Some v"
  by (simp add: sm_wf_def map_of_eq_Some_iff strict_sorted_iff)

subsection \<open>Multimaps\<close>

text \<open>
  \<open>mm_insert\<close> places a new entry after those with the same key; \<open>mm_range\<close> is
  \<^verbatim>\<open>equal_range\<close>, \<open>mm_erase\<close> the erasure of that range.
\<close>

fun mm_insert :: "'k::linorder \<Rightarrow> 'v \<Rightarrow> ('k \<times> 'v) list \<Rightarrow> ('k \<times> 'v) list" where
  "mm_insert k v [] = [(k, v)]"
| "mm_insert k v ((k', v') # m) =
     (if k < k' then (k, v) # (k', v') # m else (k', v') # mm_insert k v m)"

definition mm_range :: "'k \<Rightarrow> ('k \<times> 'v) list \<Rightarrow> 'v list" where
  "mm_range k m = map snd (filter (\<lambda>(k', _). k' = k) m)"

definition mm_erase :: "'k \<Rightarrow> ('k \<times> 'v) list \<Rightarrow> ('k \<times> 'v) list" where
  "mm_erase k m = filter (\<lambda>(k', _). k' \<noteq> k) m"

lemma set_mm_insert [simp]: "set (mm_insert k v m) = insert (k, v) (set m)"
  by (induction k v m rule: mm_insert.induct) auto

lemma mm_range_erase [simp]: "mm_range k (mm_erase k m) = []"
  by (induction m) (auto simp: mm_range_def mm_erase_def)

lemma mm_range_erase_other [simp]: "k' \<noteq> k \<Longrightarrow> mm_range k' (mm_erase k m) = mm_range k' m"
  by (induction m) (auto simp: mm_range_def mm_erase_def)

lemma mm_range_insert:
  "sorted (map fst m) \<Longrightarrow>
     mm_range k' (mm_insert k v m) = mm_range k' m @ (if k' = k then [v] else [])"
proof (induction k v m rule: mm_insert.induct)
  case (1 k v)
  then show ?case by (simp add: mm_range_def)
next
  case (2 k v k1 v1 m)
  show ?case
  proof (cases "k < k1")
    case True
    with 2 have "k \<notin> fst ` set m" by auto
    then have "filter (\<lambda>(a, _). a = k) m = []" by (force simp: filter_empty_conv)
    with True show ?thesis by (auto simp: mm_range_def)
  next
    case False
    with 2 show ?thesis by (auto simp: mm_range_def)
  qed
qed

end
