(* ===== verification/C_Strings.thy ===== *)
theory C_Strings
  imports Prelude
begin

section \<open>The C library functions the programs use on strings\<close>

text \<open>
  A C string value is a \<open>string\<close> without the NUL character; an array of \<^verbatim>\<open>char\<close> is a
  \<open>string\<close> of the array's size, NULs included. \<open>cstr_in\<close> reads the string an array
  holds, \<open>strcpy_buf\<close> is \<^verbatim>\<open>strcpy\<close> into an array.
\<close>

abbreviation NUL :: char where
  "NUL \<equiv> CHR 0x00"

definition no_nul :: "string \<Rightarrow> bool" where
  "no_nul s \<longleftrightarrow> NUL \<notin> set s"

definition cstr_in :: "string \<Rightarrow> fault + string" where
  "cstr_in buf = (if NUL \<in> set buf then Inr (takeWhile (\<lambda>c. c \<noteq> NUL) buf) else Inl Unterminated)"

definition strcpy_buf :: "string \<Rightarrow> string \<Rightarrow> fault + string" where
  "strcpy_buf buf s =
     (if length s < length buf then Inr (s @ NUL # drop (Suc (length s)) buf)
      else Inl Buffer_Overflow)"

text \<open>\<^verbatim>\<open>sprintf\<close> of \<open>s\<close> into an array of \<open>n\<close> characters, which needs room for the terminator.\<close>

definition sprintf_buf :: "nat \<Rightarrow> string \<Rightarrow> fault + string" where
  "sprintf_buf n s = (if length s < n then Inr s else Inl Buffer_Overflow)"

text \<open>A receive of at most the array's size leaves the rest of the array as it was.\<close>

definition fill_buf :: "'a list \<Rightarrow> 'a list \<Rightarrow> 'a list" where
  "fill_buf buf frame = take (length buf) frame @ drop (length frame) buf"

lemma no_nul_simps [simp]:
  "no_nul []"
  "no_nul (c # s) \<longleftrightarrow> c \<noteq> NUL \<and> no_nul s"
  "no_nul (s @ t) \<longleftrightarrow> no_nul s \<and> no_nul t"
  by (auto simp: no_nul_def)

lemma takeWhile_no_nul [simp]: "no_nul s \<Longrightarrow> takeWhile (\<lambda>c. c \<noteq> NUL) (s @ NUL # t) = s"
  by (induction s) auto

lemma cstr_in_terminated [simp]: "no_nul s \<Longrightarrow> cstr_in (s @ NUL # t) = Inr s"
  by (simp add: cstr_in_def)

lemma cstr_in_no_nul: "cstr_in buf = Inr s \<Longrightarrow> no_nul s"
  by (auto simp: cstr_in_def no_nul_def dest: set_takeWhileD split: if_splits)

lemma cstr_in_length: "cstr_in buf = Inr s \<Longrightarrow> length s < length buf"
proof -
  assume "cstr_in buf = Inr s"
  then have "NUL \<in> set buf" and s: "s = takeWhile (\<lambda>c. c \<noteq> NUL) buf"
    by (auto simp: cstr_in_def split: if_splits)
  then show ?thesis
    using takeWhile_eq_all_conv [of "\<lambda>c. c \<noteq> NUL" buf] length_takeWhile_le [of "\<lambda>c. c \<noteq> NUL" buf]
    by (metis nat_less_le takeWhile_eq_take take_all_iff verit_comp_simplify1(3))
qed

lemma strcpy_buf_ok: "length s < length buf \<Longrightarrow> strcpy_buf buf s = Inr (s @ NUL # drop (Suc (length s)) buf)"
  by (simp add: strcpy_buf_def)

lemma length_strcpy_buf: "strcpy_buf buf s = Inr buf' \<Longrightarrow> length buf' = length buf"
  by (auto simp: strcpy_buf_def split: if_splits)

lemma length_fill_buf [simp]: "length (fill_buf buf frame) = length buf"
  by (simp add: fill_buf_def)

lemma fill_buf_whole [simp]: "length frame = length buf \<Longrightarrow> fill_buf buf frame = frame"
  by (simp add: fill_buf_def)

subsection \<open>Case-insensitive comparison\<close>

text \<open>\<open>tolower_c\<close> is \<^verbatim>\<open>tolower\<close> in the C locale.\<close>

definition tolower_c :: "char \<Rightarrow> char" where
  "tolower_c c = (if CHR ''A'' \<le> c \<and> c \<le> CHR ''Z'' then char_of (of_char c + 32 :: nat) else c)"

definition char_diff :: "char \<Rightarrow> char \<Rightarrow> int" where
  "char_diff c d = of_char (tolower_c c) - of_char (tolower_c d)"

fun strncasecmp :: "string \<Rightarrow> string \<Rightarrow> nat \<Rightarrow> int" where
  "strncasecmp s t 0 = 0"
| "strncasecmp [] [] (Suc n) = 0"
| "strncasecmp [] (d # t) (Suc n) = char_diff NUL d"
| "strncasecmp (c # s) [] (Suc n) = char_diff c NUL"
| "strncasecmp (c # s) (d # t) (Suc n) =
     (if tolower_c c = tolower_c d then strncasecmp s t n else char_diff c d)"

fun strcasecmp :: "string \<Rightarrow> string \<Rightarrow> int" where
  "strcasecmp [] [] = 0"
| "strcasecmp [] (d # t) = char_diff NUL d"
| "strcasecmp (c # s) [] = char_diff c NUL"
| "strcasecmp (c # s) (d # t) =
     (if tolower_c c = tolower_c d then strcasecmp s t else char_diff c d)"

lemma tolower_c_NUL [simp]: "tolower_c NUL = NUL"
  by (simp add: tolower_c_def less_eq_char_def)

lemma tolower_c_eq_NUL_iff: "tolower_c c = NUL \<longleftrightarrow> c = NUL"
proof
  assume lower: "tolower_c c = NUL"
  show "c = NUL"
  proof (cases "CHR ''A'' \<le> c \<and> c \<le> CHR ''Z''")
    case True
    then have le: "of_char c \<le> (90 :: nat)" by (simp add: less_eq_char_def)
    from lower True have "char_of (of_char c + 32 :: nat) = NUL" by (simp add: tolower_c_def)
    then have "of_char (char_of (of_char c + 32 :: nat) :: char) = (0 :: nat)" by simp
    with le show ?thesis by simp
  next
    case False
    with lower show ?thesis by (auto simp: tolower_c_def)
  qed
qed simp

lemma char_diff_zero_iff: "char_diff c d = 0 \<longleftrightarrow> tolower_c c = tolower_c d"
  by (simp add: char_diff_def)

text \<open>
  The comparison the parsers write, \<^verbatim>\<open>strncasecmp(option, arg, strlen(arg)) == 0\<close>, holds for
  every abbreviation of the option, in any case.
\<close>

lemma strncasecmp_prefix:
  "no_nul t \<Longrightarrow> strncasecmp s t (length t) = 0 \<longleftrightarrow> prefix (map tolower_c t) (map tolower_c s)"
proof (induction t arbitrary: s)
  case Nil
  then show ?case by simp
next
  case (Cons d t)
  then show ?case
  proof (cases s)
    case Nil
    with Cons.prems show ?thesis
      by (auto simp: char_diff_zero_iff tolower_c_eq_NUL_iff dest: sym)
  next
    case (Cons c s')
    with Cons.prems Cons.IH [of s'] show ?thesis
      by (auto simp: char_diff_zero_iff dest: sym)
  qed
qed

lemma strcasecmp_eq:
  "no_nul s \<Longrightarrow> no_nul t \<Longrightarrow> strcasecmp s t = 0 \<longleftrightarrow> map tolower_c s = map tolower_c t"
  by (induction s t rule: strcasecmp.induct)
    (auto simp: char_diff_zero_iff tolower_c_eq_NUL_iff dest: sym)

subsection \<open>Numbers\<close>

text \<open>
  \<open>atoi\<close> is the C library's: leading white space, an optional sign, decimal digits; the
  value goes through \<^verbatim>\<open>strtol\<close>, which saturates at the bounds of a 64-bit \<^verbatim>\<open>long\<close>, and is
  cut to a 32-bit \<^verbatim>\<open>int\<close>. (For values that do not fit an \<^verbatim>\<open>int\<close> the C standard leaves the
  result undefined; this is what the GNU library computes.)
\<close>

definition is_space :: "char \<Rightarrow> bool" where
  "is_space c \<longleftrightarrow> (9 :: nat) \<le> of_char c \<and> of_char c \<le> (13 :: nat) \<or> c = CHR '' ''"

definition is_digit :: "char \<Rightarrow> bool" where
  "is_digit c \<longleftrightarrow> CHR ''0'' \<le> c \<and> c \<le> CHR ''9''"

fun digits_value :: "int \<Rightarrow> string \<Rightarrow> int" where
  "digits_value acc [] = acc"
| "digits_value acc (c # s) = (if is_digit c then digits_value (10 * acc + (of_char c - 48)) s else acc)"

definition clamp_long :: "int \<Rightarrow> int" where
  "clamp_long v = max (- (2 ^ 63)) (min (2 ^ 63 - 1) v)"

definition atoi :: "string \<Rightarrow> int" where
  "atoi s =
     (let t = dropWhile is_space s in
      let v = (case t of
                 [] \<Rightarrow> 0
               | c # u \<Rightarrow> (if c = CHR ''-'' then - digits_value 0 u
                          else if c = CHR ''+'' then digits_value 0 u
                          else digits_value 0 t))
      in signed_take_bit 31 (clamp_long v))"

text \<open>\<open>dec_of\<close> is the output of the conversion \<^verbatim>\<open>%d\<close>.\<close>

fun dec_of_nat :: "nat \<Rightarrow> string" where
  "dec_of_nat n = (if n < 10 then [char_of (48 + n)] else dec_of_nat (n div 10) @ [char_of (48 + n mod 10)])"

declare dec_of_nat.simps [simp del]

definition dec_of :: "int \<Rightarrow> string" where
  "dec_of i = (if i < 0 then CHR ''-'' # dec_of_nat (nat (- i)) else dec_of_nat (nat i))"

lemma of_char_digit: "n < 10 \<Longrightarrow> of_char (char_of (48 + n) :: char) = (48 + n :: nat)"
  by simp

lemma is_digit_char_of: "n < 10 \<Longrightarrow> is_digit (char_of (48 + n :: nat))"
  by (simp add: is_digit_def less_eq_char_def)

lemma dec_of_nat_digits: "\<forall>c \<in> set (dec_of_nat n). is_digit c"
proof (induction n rule: dec_of_nat.induct)
  case (1 n)
  then show ?case
    by (subst dec_of_nat.simps) (auto simp: is_digit_char_of)
qed

lemma dec_of_nat_nonempty [simp]: "dec_of_nat n \<noteq> []"
  by (subst dec_of_nat.simps) simp

lemma digits_value_append:
  "\<forall>c \<in> set s. is_digit c \<Longrightarrow> digits_value acc (s @ t) = digits_value (digits_value acc s) t"
  by (induction s arbitrary: acc) auto

lemma digits_value_dec_of_nat: "digits_value 0 (dec_of_nat n) = int n"
proof (induction n rule: dec_of_nat.induct)
  case (1 n)
  have digit: "of_char (char_of (48 + k :: nat) :: char) = (48 + int k)" if "k < 10" for k
  proof -
    have "(of_char (char_of (48 + k) :: char) :: nat) = 48 + k" using that by simp
    then show ?thesis by (metis of_nat_add of_nat_numeral of_nat_of_char)
  qed
  show ?case
  proof (cases "n < 10")
    case True
    then show ?thesis
      by (subst dec_of_nat.simps) (simp add: is_digit_char_of digit)
  next
    case False
    with 1 have "digits_value 0 (dec_of_nat (n div 10)) = int (n div 10)" by simp
    moreover have "int n = 10 * int (n div 10) + int (n mod 10)"
      by (metis mult_div_mod_eq of_nat_add of_nat_mult of_nat_numeral)
    ultimately show ?thesis
      using False
      by (subst dec_of_nat.simps)
        (simp add: digits_value_append dec_of_nat_digits is_digit_char_of digit)
  qed
qed

lemma is_digit_not_space: "is_digit c \<Longrightarrow> \<not> is_space c \<and> c \<noteq> CHR ''-'' \<and> c \<noteq> CHR ''+'' \<and> c \<noteq> NUL"
  by (auto simp: is_digit_def is_space_def less_eq_char_def)

lemma no_nul_dec_of [simp]: "no_nul (dec_of i)"
  using dec_of_nat_digits is_digit_not_space
  by (auto simp: dec_of_def no_nul_def)

text \<open>Reading back what \<^verbatim>\<open>%d\<close> printed gives the number, for every 32-bit value.\<close>

lemma atoi_dec_of:
  assumes "- (2 ^ 31) \<le> i" "i < 2 ^ 31"
  shows "atoi (dec_of i) = i"
proof -
  obtain c u where cu: "dec_of_nat (nat \<bar>i\<bar>) = c # u"
    by (cases "dec_of_nat (nat \<bar>i\<bar>)") auto
  with dec_of_nat_digits [of "nat \<bar>i\<bar>"] have c: "is_digit c" by auto
  have val: "digits_value 0 (c # u) = \<bar>i\<bar>"
    using digits_value_dec_of_nat [of "nat \<bar>i\<bar>"] cu by simp
  have range: "signed_take_bit 31 (clamp_long i) = i"
    using assms by (simp add: clamp_long_def signed_take_bit_int_eq_self)
  show ?thesis
  proof (cases "i < 0")
    case True
    with cu have dec: "dec_of i = CHR ''-'' # c # u" by (simp add: dec_of_def)
    have "\<not> is_space CHR ''-''" by (simp add: is_space_def)
    with True val range show ?thesis by (simp add: atoi_def dec)
  next
    case False
    with cu have dec: "dec_of i = c # u" by (simp add: dec_of_def)
    from is_digit_not_space [OF c] have "\<not> is_space c" "c \<noteq> CHR ''-''" "c \<noteq> CHR ''+''" by auto
    with False val range show ?thesis by (simp add: atoi_def dec)
  qed
qed

end
