(* ===== verification/Arg_Parser.thy ===== *)
theory Arg_Parser
  imports C_Strings
begin

section \<open>Command lines\<close>

text \<open>
  The programs scan \<^verbatim>\<open>argv\<close> with an index that an option taking a value moves on by one
  (\<^verbatim>\<open>argv[++i]\<close>). \<^verbatim>\<open>argv[argc]\<close> is the null pointer: taking a value there hands it to
  \<^verbatim>\<open>atoi\<close>, which is a fault; beyond it there is nothing to read. \<open>arg_body\<close> is what the loop
  needs of its body, that the index never moves back; it makes \<^verbatim>\<open>argc\<close> rounds enough.
\<close>

definition argv_at :: "string list \<Rightarrow> nat \<Rightarrow> fault + string option" where
  "argv_at argv i =
     (if i < length argv then Inr (Some (argv ! i))
      else if i = length argv then Inr None
      else Inl Buffer_Overflow)"

definition deref :: "'a option \<Rightarrow> fault + 'a" where
  "deref p = (case p of None \<Rightarrow> Inl Null_Deref | Some a \<Rightarrow> Inr a)"

definition arg_str :: "string list \<Rightarrow> nat \<Rightarrow> fault + string" where
  "arg_str argv i = bind_res (argv_at argv i) deref"

lemma arg_str_simps [simp]:
  "i < length argv \<Longrightarrow> arg_str argv i = Inr (argv ! i)"
  "arg_str argv (length argv) = Inl Null_Deref"
  by (simp_all add: arg_str_def argv_at_def deref_def)

datatype 'p opt_action =
    Set_Flag "'p \<Rightarrow> 'p"
  | Take_Int "int \<Rightarrow> 'p \<Rightarrow> 'p"
  | Take_Str "string option \<Rightarrow> 'p \<Rightarrow> 'p"

type_synonym 'p options = "(string \<times> 'p opt_action) list"

fun run_action :: "'p opt_action \<Rightarrow> string list \<Rightarrow> nat \<times> 'p \<Rightarrow> fault + nat \<times> 'p" where
  "run_action (Set_Flag f) argv (i, p) = Inr (i, f p)"
| "run_action (Take_Int f) argv (i, p) =
     bind_res (arg_str argv (Suc i)) (\<lambda>s. Inr (Suc i, f (atoi s) p))"
| "run_action (Take_Str f) argv (i, p) =
     bind_res (argv_at argv (Suc i)) (\<lambda>s. Inr (Suc i, f s p))"

text \<open>
  \<open>if_chain\<close>: a sequence of \<^verbatim>\<open>if (strncasecmp(option, argv[i], strlen(argv[i])) == 0)\<close>
  statements, each of which reads \<^verbatim>\<open>argv[i]\<close> anew, so after an option took a value the
  statements that follow it look at the value.
\<close>

definition abbreviates :: "string \<Rightarrow> string \<Rightarrow> bool" where
  "abbreviates arg opt \<longleftrightarrow> strncasecmp opt arg (length arg) = 0"

fun if_chain :: "'p options \<Rightarrow> string list \<Rightarrow> nat \<times> 'p \<Rightarrow> fault + nat \<times> 'p" where
  "if_chain [] argv st = Inr st"
| "if_chain ((name, act) # opts) argv st =
     bind_res (arg_str argv (fst st)) (\<lambda>arg.
     bind_res (if abbreviates arg name then run_action act argv st else Inr st)
       (if_chain opts argv))"

text \<open>
  \<open>else_if_chain\<close>: a chain of \<^verbatim>\<open>else if\<close>, of which the first that matches runs; each option
  comes with its comparison, \<^verbatim>\<open>strcasecmp\<close> or \<^verbatim>\<open>strcmp\<close>.
\<close>

fun else_if_chain ::
  "((string \<Rightarrow> bool) \<times> 'p opt_action) list \<Rightarrow> string list \<Rightarrow> nat \<times> 'p \<Rightarrow> fault + nat \<times> 'p" where
  "else_if_chain [] argv st = Inr st"
| "else_if_chain ((hit, act) # opts) argv st =
     bind_res (arg_str argv (fst st)) (\<lambda>arg.
       if hit arg then run_action act argv st else else_if_chain opts argv st)"

fun args_loop ::
  "nat \<Rightarrow> (string list \<Rightarrow> nat \<times> 'p \<Rightarrow> fault + nat \<times> 'p) \<Rightarrow> string list \<Rightarrow> nat \<times> 'p
     \<Rightarrow> (fault + 'p) option" where
  "args_loop 0 body argv (i, p) = (if i < length argv then None else Some (Inr p))"
| "args_loop (Suc n) body argv (i, p) =
     (if i < length argv
      then (case body argv (i, p) of
              Inl e \<Rightarrow> Some (Inl e)
            | Inr (i', p') \<Rightarrow> args_loop n body argv (Suc i', p'))
      else Some (Inr p))"

subsection \<open>The interface of a loop body\<close>

locale arg_body =
  fixes body :: "string list \<Rightarrow> nat \<times> 'p \<Rightarrow> fault + nat \<times> 'p"
  assumes advance: "body argv (i, p) = Inr (i', p') \<Longrightarrow> i \<le> i'"
begin

lemma enough_fuel: "length argv - i \<le> n \<Longrightarrow> \<exists>r. args_loop n body argv (i, p) = Some r"
proof (induction n arbitrary: i p)
  case 0
  then show ?case by auto
next
  case (Suc n)
  show ?case
  proof (cases "i < length argv")
    case True
    show ?thesis
    proof (cases "body argv (i, p)")
      case (Inl e)
      with True show ?thesis by auto
    next
      case (Inr st)
      then obtain i' p' where st: "body argv (i, p) = Inr (i', p')" by (cases st) auto
      with advance have "i \<le> i'" by blast
      with Suc.prems True have "length argv - Suc i' \<le> n" by linarith
      with Suc.IH st True show ?thesis by auto
    qed
  next
    case False
    then show ?thesis by auto
  qed
qed

lemma fuel_irrelevant:
  "args_loop n body argv (i, p) = Some r \<Longrightarrow> n \<le> m \<Longrightarrow> args_loop m body argv (i, p) = Some r"
proof (induction n arbitrary: i p m)
  case 0
  then show ?case by (cases m) (auto split: if_splits)
next
  case (Suc n)
  then obtain k where m: "m = Suc k" "n \<le> k" by (cases m) auto
  from Suc.prems(1) show ?case
    unfolding m(1) by (auto split: if_splits sum.splits intro: Suc.IH m(2))
qed

end

lemma run_action_advance: "run_action act argv (i, p) = Inr (i', p') \<Longrightarrow> i \<le> i'"
  by (cases act) (auto simp: bind_res_Inr_iff)

lemma if_chain_advance: "if_chain opts argv (i, p) = Inr (i', p') \<Longrightarrow> i \<le> i'"
proof (induction opts arbitrary: i p)
  case Nil
  then show ?case by simp
next
  case (Cons x opts)
  obtain name act where x: "x = (name, act)" by (cases x)
  from Cons.prems x obtain i1 p1 where
    "i \<le> i1" and "if_chain opts argv (i1, p1) = Inr (i', p')"
    by (auto simp: bind_res_Inr_iff split: if_splits dest: run_action_advance)
  with Cons.IH show ?case by force
qed

lemma else_if_chain_advance: "else_if_chain opts argv (i, p) = Inr (i', p') \<Longrightarrow> i \<le> i'"
  by (induction opts) (auto simp: bind_res_Inr_iff split: if_splits dest: run_action_advance)

interpretation ifs: arg_body "if_chain opts"
  by unfold_locales (rule if_chain_advance)

interpretation else_ifs: arg_body "else_if_chain opts"
  by unfold_locales (rule else_if_chain_advance)

subsection \<open>A round of a chain of \<^verbatim>\<open>if\<close>s\<close>

lemma if_chain_none:
  "i < length argv \<Longrightarrow> \<forall>(name, act) \<in> set opts. \<not> abbreviates (argv ! i) name \<Longrightarrow>
     if_chain opts argv (i, p) = Inr (i, p)"
  by (induction opts) auto

lemma if_chain_append:
  "if_chain (xs @ ys) argv st = bind_res (if_chain xs argv st) (if_chain ys argv)"
proof (induction xs arbitrary: st)
  case Nil
  then show ?case by simp
next
  case (Cons x xs)
  then have "if_chain (xs @ ys) argv = (\<lambda>st. bind_res (if_chain xs argv st) (if_chain ys argv))"
    by auto
  then show ?case by (cases x) (simp add: bind_res_assoc)
qed

lemma if_chain_flag:
  assumes "opts = xs @ (name, Set_Flag f) # ys" "i < length argv"
    and "abbreviates (argv ! i) name"
    and "\<forall>(nm, act) \<in> set (xs @ ys). \<not> abbreviates (argv ! i) nm"
  shows "if_chain opts argv (i, p) = Inr (i, f p)"
proof -
  from assms have "if_chain xs argv (i, p) = Inr (i, p)"
    and "if_chain ys argv (i, f p) = Inr (i, f p)"
    by (auto intro!: if_chain_none)
  with assms show ?thesis by (simp add: if_chain_append)
qed

lemma if_chain_int:
  assumes "opts = xs @ (name, Take_Int f) # ys" "Suc i < length argv"
    and "abbreviates (argv ! i) name"
    and "\<forall>(nm, act) \<in> set xs. \<not> abbreviates (argv ! i) nm"
    and "\<forall>(nm, act) \<in> set ys. \<not> abbreviates (argv ! Suc i) nm"
  shows "if_chain opts argv (i, p) = Inr (Suc i, f (atoi (argv ! Suc i)) p)"
proof -
  from assms have "if_chain xs argv (i, p) = Inr (i, p)"
    and "\<And>q. if_chain ys argv (Suc i, q) = Inr (Suc i, q)"
    by (auto intro!: if_chain_none)
  with assms show ?thesis by (simp add: if_chain_append)
qed

lemma if_chain_missing:
  assumes "opts = xs @ (name, Take_Int f) # ys" "Suc i = length argv"
    and "abbreviates (argv ! i) name"
    and "\<forall>(nm, act) \<in> set xs. \<not> abbreviates (argv ! i) nm"
  shows "if_chain opts argv (i, p) = Inl Null_Deref"
proof -
  from assms have "if_chain xs argv (i, p) = Inr (i, p)"
    by (auto intro!: if_chain_none)
  with assms show ?thesis by (simp add: if_chain_append)
qed

text \<open>No printed number abbreviates an option name, which starts with a dash and a letter.\<close>

definition option_name :: "string \<Rightarrow> bool" where
  "option_name s \<longleftrightarrow>
     (case s of d # c # u \<Rightarrow> d = CHR ''-'' \<and> \<not> is_digit (tolower_c c) | _ \<Rightarrow> False)"

lemma tolower_c_digit: "is_digit c \<Longrightarrow> tolower_c c = c"
  by (auto simp: tolower_c_def is_digit_def less_eq_char_def)

lemma option_name_simps [simp]: "option_name (CHR ''-'' # c # u) \<longleftrightarrow> \<not> is_digit (tolower_c c)"
  by (simp add: option_name_def)

lemma number_no_option:
  assumes "option_name name"
  shows "\<not> abbreviates (dec_of n) name"
proof
  assume "abbreviates (dec_of n) name"
  then have pre: "prefix (map tolower_c (dec_of n)) (map tolower_c name)"
    by (simp add: abbreviates_def strncasecmp_prefix)
  from assms obtain c u where name: "name = CHR ''-'' # c # u" "\<not> is_digit (tolower_c c)"
    by (auto simp: option_name_def split: list.splits)
  have dash: "tolower_c CHR ''-'' = CHR ''-''" "\<not> is_digit CHR ''-''"
    by (simp_all add: tolower_c_def is_digit_def less_eq_char_def)
  obtain d v where d: "dec_of_nat (nat \<bar>n\<bar>) = d # v"
    by (cases "dec_of_nat (nat \<bar>n\<bar>)") auto
  with dec_of_nat_digits [of "nat \<bar>n\<bar>"] have "is_digit d" "tolower_c d = d"
    by (auto simp: tolower_c_digit)
  with pre name dash d show False
    by (auto simp: dec_of_def split: if_splits)
qed

subsection \<open>Well-formed command lines\<close>

text \<open>
  A well-formed command line is a list of tokens: an option by its full name, with its
  number or string where it takes one. On a table none of whose names abbreviates another,
  the scan applies the tokens one after the other, whatever the order of the statements.
\<close>

datatype token = Flag_Arg string | Int_Arg string int | Str_Arg string string

fun token_args :: "token \<Rightarrow> string list" where
  "token_args (Flag_Arg name) = [name]"
| "token_args (Int_Arg name n) = [name, dec_of n]"
| "token_args (Str_Arg name s) = [name, s]"

fun token_name :: "token \<Rightarrow> string" where
  "token_name (Flag_Arg name) = name"
| "token_name (Int_Arg name n) = name"
| "token_name (Str_Arg name s) = name"

definition int_range :: "int \<Rightarrow> bool" where
  "int_range n \<longleftrightarrow> - (2 ^ 31) \<le> n \<and> n < 2 ^ 31"

fun action_fits :: "string list \<Rightarrow> 'p opt_action \<Rightarrow> token \<Rightarrow> bool" where
  "action_fits names (Set_Flag f) (Flag_Arg name) = True"
| "action_fits names (Take_Int f) (Int_Arg name n) = int_range n"
| "action_fits names (Take_Str f) (Str_Arg name s) = list_all (\<lambda>nm. \<not> abbreviates s nm) names"
| "action_fits names act t = False"

definition token_fits :: "'p options \<Rightarrow> token \<Rightarrow> bool" where
  "token_fits opts t \<longleftrightarrow>
     (case map_of opts (token_name t) of None \<Rightarrow> False | Some act \<Rightarrow> action_fits (map fst opts) act t)"

fun apply_action :: "'p opt_action \<Rightarrow> token \<Rightarrow> 'p \<Rightarrow> 'p" where
  "apply_action (Set_Flag f) t p = f p"
| "apply_action (Take_Int f) (Int_Arg name n) p = f n p"
| "apply_action (Take_Str f) (Str_Arg name s) p = f (Some s) p"
| "apply_action act t p = p"

definition apply_token :: "'p options \<Rightarrow> token \<Rightarrow> 'p \<Rightarrow> 'p" where
  "apply_token opts t p =
     (case map_of opts (token_name t) of None \<Rightarrow> p | Some act \<Rightarrow> apply_action act t p)"

definition sole_match :: "string list \<Rightarrow> string \<Rightarrow> bool" where
  "sole_match names name \<longleftrightarrow> filter (abbreviates name) names = [name]"

definition option_table :: "'p options \<Rightarrow> bool" where
  "option_table opts \<longleftrightarrow>
     list_all option_name (map fst opts) \<and> list_all (sole_match (map fst opts)) (map fst opts)"

lemma option_table_split:
  assumes "option_table opts" "map_of opts name = Some act"
  obtains xs ys where "opts = xs @ (name, act) # ys" "abbreviates name name"
    "\<forall>(nm, act) \<in> set (xs @ ys). \<not> abbreviates name nm"
proof -
  from assms(2) have mem: "(name, act) \<in> set opts" by (rule map_of_SomeD)
  then obtain xs ys where opts: "opts = xs @ (name, act) # ys" by (auto dest: split_list)
  from mem have "name \<in> set (map fst opts)" by force
  with assms(1) have "sole_match (map fst opts) name" by (simp only: option_table_def list_all_iff)
  then have sole: "filter (abbreviates name) (map fst xs @ name # map fst ys) = [name]"
    by (simp add: sole_match_def opts)
  have self: "abbreviates name name"
    by (rule ccontr) (use sole in \<open>auto simp: append_eq_Cons_conv filter_eq_Cons_iff\<close>)
  from sole self have
    "filter (abbreviates name) (map fst xs) @ name # filter (abbreviates name) (map fst ys) = [name]"
    by simp
  then have "filter (abbreviates name) (map fst xs) = []" "filter (abbreviates name) (map fst ys) = []"
    by (auto simp: append_eq_Cons_conv)
  then have "\<forall>(nm, act) \<in> set (xs @ ys). \<not> abbreviates name nm"
    by (auto simp: filter_empty_conv)
  with opts self that show thesis by blast
qed

lemma if_chain_token:
  assumes table: "option_table opts" and fits: "token_fits opts t"
    and argv: "argv = pre @ token_args t @ post"
  shows "\<exists>i. if_chain opts argv (length pre, p) = Inr (i, apply_token opts t p)
    \<and> Suc i = length pre + length (token_args t)"
proof -
  from fits obtain act where act: "map_of opts (token_name t) = Some act"
    and fit: "action_fits (map fst opts) act t"
    by (auto simp: token_fits_def split: option.splits)
  from option_table_split [OF table act] obtain xs ys where
    opts: "opts = xs @ (token_name t, act) # ys"
    and self: "abbreviates (token_name t) (token_name t)"
    and others: "\<forall>(nm, act) \<in> set (xs @ ys). \<not> abbreviates (token_name t) nm" by blast
  have here: "argv ! length pre = token_name t" using argv by (cases t) auto
  have apply_t: "apply_token opts t p = apply_action act t p"
    by (simp add: apply_token_def act)
  consider (flag) f name where "act = Set_Flag f" "t = Flag_Arg name"
    | (num) f name n where "act = Take_Int f" "t = Int_Arg name n" "int_range n"
    | (str) f name s where "act = Take_Str f" "t = Str_Arg name s"
        "list_all (\<lambda>nm. \<not> abbreviates s nm) (map fst opts)"
    using fit by (cases act; cases t) auto
  then show ?thesis
  proof cases
    case (flag f name)
    have "if_chain opts argv (length pre, p) = Inr (length pre, f p)"
      by (rule if_chain_flag [of _ xs name f ys]) (use argv opts self others here flag in simp_all)
    with flag apply_t show ?thesis by simp
  next
    case (num f name n)
    have names: "\<forall>(nm, act) \<in> set ys. option_name nm"
      using table opts by (force simp: option_table_def list_all_iff)
    have next_arg: "argv ! Suc (length pre) = dec_of n" and len: "Suc (length pre) < length argv"
      using argv num by (auto simp: nth_append)
    have "\<forall>(nm, act) \<in> set ys. \<not> abbreviates (argv ! Suc (length pre)) nm"
      using names next_arg by (auto simp: number_no_option)
    with num opts self others here len next_arg
    have "if_chain opts argv (length pre, p) = Inr (Suc (length pre), f (atoi (dec_of n)) p)"
      using if_chain_int [of opts xs name f ys "length pre" argv p] by simp
    with num apply_t show ?thesis by (simp add: int_range_def atoi_dec_of)
  next
    case (str f name s)
    have next_arg: "argv ! Suc (length pre) = s" and len: "Suc (length pre) < length argv"
      using argv str by (auto simp: nth_append)
    have ys: "\<forall>(nm, act) \<in> set ys. \<not> abbreviates s nm"
      using str opts by (force simp: list_all_iff)
    have "if_chain xs argv (length pre, p) = Inr (length pre, p)"
      and "\<And>q. if_chain ys argv (Suc (length pre), q) = Inr (Suc (length pre), q)"
      using others here next_arg ys len by (intro if_chain_none; simp)+
    with str opts self here next_arg len
    have "if_chain opts argv (length pre, p) = Inr (Suc (length pre), f (Some s) p)"
      by (simp add: if_chain_append argv_at_def)
    with str apply_t show ?thesis by simp
  qed
qed

lemma args_loop_tokens:
  assumes "option_table opts" "list_all (token_fits opts) ts"
    and "length (concat (map token_args ts)) \<le> n"
  shows "args_loop n (if_chain opts) (pre @ concat (map token_args ts)) (length pre, p)
    = Some (Inr (fold (apply_token opts) ts p))"
  using assms(2,3)
proof (induction ts arbitrary: pre p n)
  case Nil
  then show ?case by (cases n) auto
next
  case (Cons t ts)
  let ?argv = "pre @ token_args t @ concat (map token_args ts)"
  from Cons.prems if_chain_token [OF assms(1), of t ?argv pre] obtain i where
    i: "if_chain opts ?argv (length pre, p) = Inr (i, apply_token opts t p)"
      "Suc i = length pre + length (token_args t)" by auto
  have pos: "0 < length (token_args t)" by (cases t) auto
  with Cons.prems obtain m where n: "n = Suc m" by (cases n) auto
  from pos Cons.prems(2) n have "length (concat (map token_args ts)) \<le> m"
    by (simp del: length_greater_0_conv)
  with Cons.IH [of m "pre @ token_args t" "apply_token opts t p"] Cons.prems(1) i pos
  show ?case by (simp add: n)
qed

text \<open>
  A value-taking option named by the last argument takes its value from the null pointer,
  for every abbreviation that reaches its statement first.
\<close>

lemma args_loop_missing_value:
  assumes table: "option_table opts" "list_all (token_fits opts) ts"
    and fuel: "length (concat (map token_args ts)) < n"
    and opts: "opts = xs @ (name, Take_Int f) # ys"
    and hit: "abbreviates arg name" "\<forall>(nm, act) \<in> set xs. \<not> abbreviates arg nm"
  shows "args_loop n (if_chain opts) (pre @ concat (map token_args ts) @ [arg]) (length pre, p)
    = Some (Inl Null_Deref)"
  using table(2) fuel
proof (induction ts arbitrary: pre p n)
  case Nil
  then obtain m where "n = Suc m" by (cases n) auto
  moreover have "if_chain opts (pre @ [arg]) (length pre, p) = Inl Null_Deref"
    by (rule if_chain_missing [OF opts]) (use hit in auto)
  ultimately show ?case by simp
next
  case (Cons t ts)
  let ?argv = "pre @ token_args t @ concat (map token_args ts) @ [arg]"
  from Cons.prems if_chain_token [OF table(1), of t ?argv pre] obtain i where
    i: "if_chain opts ?argv (length pre, p) = Inr (i, apply_token opts t p)"
      "Suc i = length pre + length (token_args t)" by auto
  have pos: "0 < length (token_args t)" by (cases t) auto
  with Cons.prems obtain m where n: "n = Suc m" by (cases n) auto
  from pos Cons.prems(2) n have "length (concat (map token_args ts)) < m"
    by (simp del: length_greater_0_conv)
  with Cons.IH [of m "pre @ token_args t" "apply_token opts t p"] Cons.prems(1) i pos
  show ?case by (simp add: n)
qed

text \<open>Command lines made of items that the body of the loop consumes one by one.\<close>

lemma args_loop_items:
  assumes "\<And>pre x post p. ok x \<Longrightarrow>
      body (pre @ args x @ post) (length pre, p) = Inr (length pre + length (args x) - 1, app x p)"
    and "\<And>x. args x \<noteq> []" "list_all ok xs" "length (concat (map args xs)) \<le> n"
  shows "args_loop n body (pre @ concat (map args xs)) (length pre, p) = Some (Inr (fold app xs p))"
  using assms(3,4)
proof (induction xs arbitrary: pre p n)
  case Nil
  then show ?case by (cases n) auto
next
  case (Cons x xs)
  from assms(2) [of x] have pos: "0 < length (args x)" by simp
  with Cons.prems obtain m where n: "n = Suc m" by (cases n) auto
  from pos Cons.prems(2) n have "length (concat (map args xs)) \<le> m"
    by (simp del: length_greater_0_conv)
  with Cons.IH [of m "pre @ args x" "app x p"] Cons.prems(1) pos
    assms(1) [of x pre "concat (map args xs)" p]
  show ?case by (simp add: n Suc_diff_Suc)
qed

lemma else_if_chain_find:
  "i < length argv \<Longrightarrow> else_if_chain opts argv (i, p) =
     (case find (\<lambda>(hit, act). hit (argv ! i)) opts of
        None \<Rightarrow> Inr (i, p) | Some (hit, act) \<Rightarrow> run_action act argv (i, p))"
  by (induction opts argv "(i, p)" rule: else_if_chain.induct) auto

text \<open>Closed calls are evaluated by \<open>code_simp\<close>; elsewhere the loop stays folded.\<close>

declare args_loop.simps [simp del]

end
