(* ===== verification/Params.thy ===== *)
theory Params
  imports Arg_Parser
begin

section \<open>The parameters of the programs\<close>

text \<open>
  \<^verbatim>\<open>parseParams\<close> of 3186/params.c, reconnect/params.c (the same text as connect/params.c)
  and pingpong/params.c. Each parser is its list of \<^verbatim>\<open>if\<close> statements in source order, run by
  \<open>args_loop\<close> from index 1 with \<^verbatim>\<open>argc\<close> rounds of fuel. The globals start at the values their
  definitions give them.
\<close>

subsection \<open>3186/params.c\<close>

record params =
  seconds :: int
  sleepAtExit :: int
  port :: int
  disableReconnect :: int
  fix1256 :: int
  sendAfterDisconnect :: int
  linger :: int
  immediateExit :: int
  duplicateDisconnect :: int
  pollAfterDisconnect :: int
  longLived :: int
  earlyLinger :: int
  socketMonitor :: int

definition params_init :: params where
  "params_init = \<lparr>seconds = 0, sleepAtExit = 0, port = 0, disableReconnect = 0, fix1256 = 0,
     sendAfterDisconnect = 0, linger = 0, immediateExit = 0, duplicateDisconnect = 0,
     pollAfterDisconnect = 0, longLived = 0, earlyLinger = 0, socketMonitor = 0\<rparr>"

definition params_options :: "params options" where
  "params_options =
    [(''-seconds'', Take_Int (\<lambda>n p. p\<lparr>seconds := n\<rparr>)),
     (''-sleep-at-exit'', Take_Int (\<lambda>n p. p\<lparr>sleepAtExit := n\<rparr>)),
     (''-port'', Take_Int (\<lambda>n p. p\<lparr>port := n\<rparr>)),
     (''-disable-reconnect'', Set_Flag (\<lambda>p. p\<lparr>disableReconnect := 1\<rparr>)),
     (''-fix1256'', Set_Flag (\<lambda>p. p\<lparr>fix1256 := 1\<rparr>)),
     (''-send-after-disconnect'', Set_Flag (\<lambda>p. p\<lparr>sendAfterDisconnect := 1\<rparr>)),
     (''-immediate-exit'', Set_Flag (\<lambda>p. p\<lparr>immediateExit := 1\<rparr>)),
     (''-duplicate-disconnect'', Set_Flag (\<lambda>p. p\<lparr>duplicateDisconnect := 1\<rparr>)),
     (''-linger'', Take_Int (\<lambda>n p. p\<lparr>linger := n\<rparr>)),
     (''-poll-after-disconnect'', Set_Flag (\<lambda>p. p\<lparr>pollAfterDisconnect := 1\<rparr>)),
     (''-long-lived'', Set_Flag (\<lambda>p. p\<lparr>longLived := 1\<rparr>)),
     (''-early-linger'', Set_Flag (\<lambda>p. p\<lparr>earlyLinger := 1\<rparr>)),
     (''-monitor-sockets'', Set_Flag (\<lambda>p. p\<lparr>socketMonitor := 1\<rparr>))]"

definition parseParams :: "string list \<Rightarrow> (fault + params) option" where
  "parseParams argv = args_loop (length argv) (if_chain params_options) argv (1, params_init)"

text \<open>What a command line is meant to say: an option name, with its number where it takes one.\<close>

datatype setting =
    Seconds int | Sleep_At_Exit int | Port int | Disable_Reconnect | Fix1256
  | Send_After_Disconnect | Immediate_Exit | Duplicate_Disconnect | Linger_Ms int
  | Poll_After_Disconnect | Long_Lived | Early_Linger | Monitor_Sockets

fun setting_args :: "setting \<Rightarrow> string list" where
  "setting_args (Seconds n) = [''-seconds'', dec_of n]"
| "setting_args (Sleep_At_Exit n) = [''-sleep-at-exit'', dec_of n]"
| "setting_args (Port n) = [''-port'', dec_of n]"
| "setting_args Disable_Reconnect = [''-disable-reconnect'']"
| "setting_args Fix1256 = [''-fix1256'']"
| "setting_args Send_After_Disconnect = [''-send-after-disconnect'']"
| "setting_args Immediate_Exit = [''-immediate-exit'']"
| "setting_args Duplicate_Disconnect = [''-duplicate-disconnect'']"
| "setting_args (Linger_Ms n) = [''-linger'', dec_of n]"
| "setting_args Poll_After_Disconnect = [''-poll-after-disconnect'']"
| "setting_args Long_Lived = [''-long-lived'']"
| "setting_args Early_Linger = [''-early-linger'']"
| "setting_args Monitor_Sockets = [''-monitor-sockets'']"

fun apply_setting :: "setting \<Rightarrow> params \<Rightarrow> params" where
  "apply_setting (Seconds n) p = p\<lparr>seconds := n\<rparr>"
| "apply_setting (Sleep_At_Exit n) p = p\<lparr>sleepAtExit := n\<rparr>"
| "apply_setting (Port n) p = p\<lparr>port := n\<rparr>"
| "apply_setting Disable_Reconnect p = p\<lparr>disableReconnect := 1\<rparr>"
| "apply_setting Fix1256 p = p\<lparr>fix1256 := 1\<rparr>"
| "apply_setting Send_After_Disconnect p = p\<lparr>sendAfterDisconnect := 1\<rparr>"
| "apply_setting Immediate_Exit p = p\<lparr>immediateExit := 1\<rparr>"
| "apply_setting Duplicate_Disconnect p = p\<lparr>duplicateDisconnect := 1\<rparr>"
| "apply_setting (Linger_Ms n) p = p\<lparr>linger := n\<rparr>"
| "apply_setting Poll_After_Disconnect p = p\<lparr>pollAfterDisconnect := 1\<rparr>"
| "apply_setting Long_Lived p = p\<lparr>longLived := 1\<rparr>"
| "apply_setting Early_Linger p = p\<lparr>earlyLinger := 1\<rparr>"
| "apply_setting Monitor_Sockets p = p\<lparr>socketMonitor := 1\<rparr>"

fun setting_in_range :: "setting \<Rightarrow> bool" where
  "setting_in_range (Seconds n) = int_range n"
| "setting_in_range (Sleep_At_Exit n) = int_range n"
| "setting_in_range (Port n) = int_range n"
| "setting_in_range (Linger_Ms n) = int_range n"
| "setting_in_range s = True"

fun setting_token :: "setting \<Rightarrow> token" where
  "setting_token (Seconds n) = Int_Arg ''-seconds'' n"
| "setting_token (Sleep_At_Exit n) = Int_Arg ''-sleep-at-exit'' n"
| "setting_token (Port n) = Int_Arg ''-port'' n"
| "setting_token Disable_Reconnect = Flag_Arg ''-disable-reconnect''"
| "setting_token Fix1256 = Flag_Arg ''-fix1256''"
| "setting_token Send_After_Disconnect = Flag_Arg ''-send-after-disconnect''"
| "setting_token Immediate_Exit = Flag_Arg ''-immediate-exit''"
| "setting_token Duplicate_Disconnect = Flag_Arg ''-duplicate-disconnect''"
| "setting_token (Linger_Ms n) = Int_Arg ''-linger'' n"
| "setting_token Poll_After_Disconnect = Flag_Arg ''-poll-after-disconnect''"
| "setting_token Long_Lived = Flag_Arg ''-long-lived''"
| "setting_token Early_Linger = Flag_Arg ''-early-linger''"
| "setting_token Monitor_Sockets = Flag_Arg ''-monitor-sockets''"

lemma params_table: "option_table params_options"
  by code_simp

lemma setting_token_args: "token_args (setting_token s) = setting_args s"
  by (cases s) simp_all

lemma setting_token_fits: "setting_in_range s \<Longrightarrow> token_fits params_options (setting_token s)"
  by (cases s) (simp_all add: token_fits_def params_options_def)

lemma apply_setting_token: "apply_token params_options (setting_token s) = apply_setting s"
  by (cases s) (simp_all add: apply_token_def params_options_def fun_eq_iff)

text \<open>
  Every abbreviation of an option that takes a number reaches the statement of such an
  option before any other: the short ones reach \<^verbatim>\<open>-seconds\<close>, the first of the list.
\<close>

definition takes_number :: "params opt_action \<Rightarrow> bool" where
  "takes_number act = (case act of Take_Int f \<Rightarrow> True | _ \<Rightarrow> False)"

definition number_abbreviations :: "string list" where
  "number_abbreviations =
     concat (map (\<lambda>(nm, act). if takes_number act then prefixes (map tolower_c nm) else []) params_options)"

lemma number_abbreviations_hit:
  "list_all (\<lambda>low. case find (\<lambda>(nm, act). prefix low (map tolower_c nm)) params_options of
       Some (nm, act) \<Rightarrow> takes_number act | None \<Rightarrow> False) number_abbreviations"
  by code_simp

lemma number_option_first:
  assumes "no_nul arg" "(name, act) \<in> set params_options" "takes_number act" "abbreviates arg name"
  obtains xs nm f ys where "params_options = xs @ (nm, Take_Int f) # ys" "abbreviates arg nm"
    "\<forall>(nm', act') \<in> set xs. \<not> abbreviates arg nm'"
proof -
  let ?low = "map tolower_c arg"
  have abbr: "abbreviates arg = (\<lambda>nm. prefix ?low (map tolower_c nm))"
    using assms(1) by (simp add: fun_eq_iff abbreviates_def strncasecmp_prefix)
  from assms(2,3,4) abbr have "?low \<in> set number_abbreviations"
    by (auto simp: number_abbreviations_def intro!: bexI [of _ "(name, act)"])
  with number_abbreviations_hit obtain nm act' where
    hit: "find (\<lambda>(nm, act). prefix ?low (map tolower_c nm)) params_options = Some (nm, act')"
    and num: "takes_number act'"
    by (auto simp: list_all_iff split: option.splits)
  from num obtain f where f: "act' = Take_Int f"
    by (auto simp: takes_number_def split: opt_action.splits)
  from hit obtain i where i: "i < length params_options" "params_options ! i = (nm, Take_Int f)"
    "prefix ?low (map tolower_c nm)"
    "\<forall>j<i. \<not> (case params_options ! j of (nm, act) \<Rightarrow> prefix ?low (map tolower_c nm))"
    by (auto simp: find_Some_iff f)
  have "\<forall>(nm', act') \<in> set (take i params_options). \<not> abbreviates arg nm'"
    using i(4) by (fastforce simp: abbr in_set_conv_nth)
  with i that show thesis
    by (metis abbr id_take_nth_drop)
qed

subsection \<open>reconnect/params.c and connect/params.c\<close>

text \<open>
  \<open>tcpAddr\<close> is a pointer, null until \<^verbatim>\<open>-addr\<close> sets it; after the scan a null pointer is
  replaced by the loopback address.
\<close>

record reconnect_params =
  rport :: int
  stopReconnectOnError :: int
  tcpAddr :: "string option"
  interval :: int

definition reconnect_params_init :: reconnect_params where
  "reconnect_params_init = \<lparr>rport = 0, stopReconnectOnError = 0, tcpAddr = None, interval = 1000\<rparr>"

definition reconnect_options :: "reconnect_params options" where
  "reconnect_options =
    [(''-addr'', Take_Str (\<lambda>s p. p\<lparr>tcpAddr := s\<rparr>)),
     (''-port'', Take_Int (\<lambda>n p. p\<lparr>rport := n\<rparr>)),
     (''-interval'', Take_Int (\<lambda>n p. p\<lparr>interval := n\<rparr>)),
     (''-stop-reconnect-on'', Take_Int (\<lambda>n p. p\<lparr>stopReconnectOnError := n\<rparr>))]"

definition default_addr :: "reconnect_params \<Rightarrow> reconnect_params" where
  "default_addr p = (if tcpAddr p = None then p\<lparr>tcpAddr := Some ''127.0.0.1''\<rparr> else p)"

definition reconnect_parseParams :: "string list \<Rightarrow> (fault + reconnect_params) option" where
  "reconnect_parseParams argv =
     map_option (\<lambda>r. bind_res r (\<lambda>p. Inr (default_addr p)))
       (args_loop (length argv) (if_chain reconnect_options) argv (1, reconnect_params_init))"

text \<open>connect/params.c repeats this parser word for word.\<close>

definition connect_parseParams :: "string list \<Rightarrow> (fault + reconnect_params) option" where
  "connect_parseParams = reconnect_parseParams"

lemma the_default_addr:
  "the (tcpAddr (default_addr p)) = (case tcpAddr p of None \<Rightarrow> ''127.0.0.1'' | Some a \<Rightarrow> a)"
  by (simp add: default_addr_def split: option.splits)

lemma reconnect_table: "option_table reconnect_options"
  by code_simp

subsection \<open>pingpong/params.c\<close>

record pingpong_params =
  pingPort :: int
  pongPort :: int
  numRequests :: int
  pp_pollFlag :: bool
  controlFlag :: bool

definition pingpong_params_init :: pingpong_params where
  "pingpong_params_init = \<lparr>pingPort = 0, pongPort = 0, numRequests = 100000,
     pp_pollFlag = False, controlFlag = False\<rparr>"

definition pingpong_options :: "pingpong_params options" where
  "pingpong_options =
    [(''-ping'', Take_Int (\<lambda>n p. p\<lparr>pingPort := n\<rparr>)),
     (''-pong'', Take_Int (\<lambda>n p. p\<lparr>pongPort := n\<rparr>)),
     (''-n'', Take_Int (\<lambda>n p. p\<lparr>numRequests := n\<rparr>)),
     (''-poll'', Set_Flag (\<lambda>p. p\<lparr>pp_pollFlag := True\<rparr>)),
     (''-control'', Set_Flag (\<lambda>p. p\<lparr>controlFlag := True\<rparr>))]"

definition pingpong_parseParams :: "string list \<Rightarrow> (fault + pingpong_params) option" where
  "pingpong_parseParams argv =
     args_loop (length argv) (if_chain pingpong_options) argv (1, pingpong_params_init)"

lemma pingpong_table: "option_table pingpong_options"
  by code_simp

lemma parse_tokens:
  assumes "option_table opts" "list_all (token_fits opts) ts" "argv = prog # concat (map token_args ts)"
  shows "args_loop (length argv) (if_chain opts) argv (1, p) = Some (Inr (fold (apply_token opts) ts p))"
  using args_loop_tokens [OF assms(1,2), of "length argv" "[prog]" p] by (simp add: assms(3))

subsection \<open>Properties\<close>

text \<open>
  C36. The parser of the 3186 programs understands every command line its author writes: for
  any list of settings, in any order and with repetitions, each written as the full option
  name followed by its number in decimal where it takes one, \<^verbatim>\<open>parseParams\<close> ends without a
  fault and leaves the globals as if the settings had been applied one after the other to
  their initial values. In particular the value of an option is never mistaken for an
  option by the statements that follow it.
\<close>

theorem parseParams_well_formed:
  assumes "list_all setting_in_range ss"
  shows "parseParams (prog # concat (map setting_args ss)) = Some (Inr (fold apply_setting ss params_init))"
proof -
  have tokens: "list_all (token_fits params_options) (map setting_token ss)"
    using assms by (auto simp: list_all_iff setting_token_fits)
  have "concat (map token_args (map setting_token ss)) = concat (map setting_args ss)"
    by (simp add: o_def setting_token_args)
  with parse_tokens [OF params_table tokens] show ?thesis
    by (simp add: parseParams_def fold_map o_def apply_setting_token)
qed

theorem parseParams_well_formed_witness:
  "parseParams [''peer'', ''-seconds'', ''2'', ''-send-after-disconnect'', ''-linger'', ''-1'']
     = Some (Inr (params_init\<lparr>seconds := 2, sendAfterDisconnect := 1, linger := -1\<rparr>))"
proof -
  have "dec_of 2 = ''2''" "dec_of (-1) = ''-1''" by code_simp+
  with parseParams_well_formed [of "[Seconds 2, Send_After_Disconnect, Linger_Ms (-1)]" "''peer''"]
  show ?thesis by (simp add: int_range_def)
qed

text \<open>
  An option that takes a number, abbreviated to any of its prefixes and in any case, given
  as the last argument: after any well-formed settings the parser of the 3186 programs
  reaches \<^verbatim>\<open>atoi(argv[argc])\<close> and dereferences the null pointer. The empty argument is one of
  these abbreviations.
\<close>

theorem parseParams_missing_number:
  assumes ss: "list_all setting_in_range ss" and arg: "no_nul arg"
    and opt: "(name, act) \<in> set params_options" "takes_number act" "abbreviates arg name"
  shows "parseParams (prog # concat (map setting_args ss) @ [arg]) = Some (Inl Null_Deref)"
proof -
  have tokens: "list_all (token_fits params_options) (map setting_token ss)"
    using ss by (auto simp: list_all_iff setting_token_fits)
  have args: "concat (map token_args (map setting_token ss)) = concat (map setting_args ss)"
    by (simp add: o_def setting_token_args)
  from number_option_first [OF arg opt] obtain xs nm f ys where
    "params_options = xs @ (nm, Take_Int f) # ys" "abbreviates arg nm"
    "\<forall>(nm', act') \<in> set xs. \<not> abbreviates arg nm'" .
  from args_loop_missing_value [OF params_table tokens _ this, unfolded args, where pre = "[prog]"]
  show ?thesis by (simp add: parseParams_def)
qed

theorem parseParams_missing_number_witness:
  "parseParams [''peer'', ''-long-lived'', []] = Some (Inl Null_Deref)"
proof -
  have "(''-seconds'', Take_Int (\<lambda>n p. p\<lparr>seconds := n\<rparr>)) \<in> set params_options"
    by (simp add: params_options_def)
  moreover have "takes_number (Take_Int (\<lambda>n p. p\<lparr>seconds := n\<rparr>))" by (simp add: takes_number_def)
  moreover have "abbreviates [] ''-seconds''" by (simp add: abbreviates_def)
  ultimately show ?thesis
    using parseParams_missing_number [of "[Long_Lived]" "[]" "''-seconds''" _ "''peer''"] by simp
qed

text \<open>
  The argument scans of 3186, reconnect, connect and pingpong end for every command line,
  well formed or not: \<^verbatim>\<open>argc\<close> rounds are enough, because no statement moves the index back.
\<close>

theorem parsers_terminate:
  "(\<exists>r. parseParams argv = Some r) \<and> (\<exists>r. reconnect_parseParams argv = Some r)
   \<and> (\<exists>r. connect_parseParams argv = Some r) \<and> (\<exists>r. pingpong_parseParams argv = Some r)"
  using ifs.enough_fuel [of argv 1 "length argv" params_options params_init]
    ifs.enough_fuel [of argv 1 "length argv" reconnect_options reconnect_params_init]
    ifs.enough_fuel [of argv 1 "length argv" pingpong_options pingpong_params_init]
  by (auto simp: parseParams_def reconnect_parseParams_def connect_parseParams_def
      pingpong_parseParams_def)

text \<open>
  The parser of the reconnect and connect programs on well-formed command lines: the
  options apply in order, and the address it ends with is the last \<^verbatim>\<open>-addr\<close> given, or the
  loopback address when there is none; it is never null.
\<close>

theorem reconnect_parseParams_well_formed:
  assumes "list_all (token_fits reconnect_options) ts"
  shows "\<exists>p. reconnect_parseParams (prog # concat (map token_args ts)) = Some (Inr p)
    \<and> p = default_addr (fold (apply_token reconnect_options) ts reconnect_params_init)
    \<and> tcpAddr p = Some (fold (\<lambda>t a. case t of Str_Arg name s \<Rightarrow> s | _ \<Rightarrow> a) ts ''127.0.0.1'')"
proof -
  let ?q = "\<lambda>ts p. fold (apply_token reconnect_options) ts p"
  have addr: "tcpAddr (default_addr (?q ts p)) =
      Some (fold (\<lambda>t a. case t of Str_Arg name s \<Rightarrow> s | _ \<Rightarrow> a) ts (the (tcpAddr (default_addr p))))"
    if "list_all (token_fits reconnect_options) ts" for ts p
    using that
  proof (induction ts arbitrary: p)
    case Nil
    then show ?case by (auto simp: default_addr_def)
  next
    case (Cons t ts)
    from Cons.prems obtain act where act: "map_of reconnect_options (token_name t) = Some act"
      and fit: "action_fits (map fst reconnect_options) act t"
      by (auto simp: token_fits_def split: option.splits)
    from map_of_SomeD [OF act]
    have "act = Take_Str (\<lambda>s p. p\<lparr>tcpAddr := s\<rparr>) \<or> act = Take_Int (\<lambda>n p. p\<lparr>rport := n\<rparr>)
      \<or> act = Take_Int (\<lambda>n p. p\<lparr>interval := n\<rparr>) \<or> act = Take_Int (\<lambda>n p. p\<lparr>stopReconnectOnError := n\<rparr>)"
      unfolding reconnect_options_def by (auto simp only: list.set prod.inject insert_iff empty_iff)
    then have "the (tcpAddr (default_addr (apply_action act t p)))
      = (case t of Str_Arg name s \<Rightarrow> s | _ \<Rightarrow> the (tcpAddr (default_addr p)))"
      by (elim disjE; insert fit; cases t; simp only: action_fits.simps apply_action.simps token.case;
          simp add: the_default_addr)
    with act have "the (tcpAddr (default_addr (apply_token reconnect_options t p)))
      = (case t of Str_Arg name s \<Rightarrow> s | _ \<Rightarrow> the (tcpAddr (default_addr p)))"
      by (simp add: apply_token_def)
    with Cons show ?case by simp
  qed
  from parse_tokens [OF reconnect_table assms refl, of prog reconnect_params_init] addr [OF assms, of reconnect_params_init]
  show ?thesis
    by (simp add: reconnect_parseParams_def default_addr_def reconnect_params_init_def)
qed

theorem reconnect_parseParams_well_formed_witness:
  "\<exists>p. reconnect_parseParams [''peer'', ''-addr'', ''10.0.0.1'', ''-port'', ''5755''] = Some (Inr p)
    \<and> tcpAddr p = Some ''10.0.0.1''"
proof -
  have fits: "list_all (token_fits reconnect_options) [Str_Arg ''-addr'' ''10.0.0.1'', Int_Arg ''-port'' 5755]"
    by code_simp
  have "dec_of 5755 = ''5755''" by (simp add: dec_of_def dec_of_nat.simps, code_simp)
  with reconnect_parseParams_well_formed [OF fits, of "''peer''"] show ?thesis by auto
qed

end
