(* ===== verification/Zmq_Calls.thy ===== *)
theory Zmq_Calls
  imports Prelude
begin

section \<open>What the programs ask of libzmq\<close>

text \<open>
  The programs of the repository drive libzmq, which is not part of it (but for one file,
  see \<open>Socket_Base\<close>). A program is therefore modelled by the calls it makes, in order, as
  a list of \<open>zcall\<close>s: what a call returns is an argument of the model wherever the code
  looks at it. \<open>track\<close> replays such a list against the set of open sockets, and fails on
  a call that uses a socket that is not open.

  A socket is named by the program variable that holds it, a thread-local one by its
  thread.
\<close>

datatype handle = Var string | Tls nat

datatype kind =
    ZMQ_PAIR | ZMQ_PUB | ZMQ_SUB | ZMQ_PUSH | ZMQ_PULL
  | ZMQ_SERVER | ZMQ_CLIENT | ZMQ_XPUB | ZMQ_XSUB
  | ZMQ_REQ | ZMQ_REP | ZMQ_DEALER | ZMQ_ROUTER | ZMQ_STREAM
  | ZMQ_RADIO | ZMQ_DISH | ZMQ_GATHER | ZMQ_SCATTER | ZMQ_DGRAM

datatype 'm sockopt =
    Linger int
  | Subscribe string
  | Reconnect_Ivl int
  | Heartbeat_Ivl int
  | Handshake_Ivl int
  | Reconnect_Stop int
  | Min_Zmtp_Version int int
  | Xpub_Welcome_Msg 'm

datatype getopt = Last_Endpoint | Events

datatype 'm zcall =
    Ctx_New
  | Ctx_Set_Blocky bool
  | Ctx_Shutdown
  | Ctx_Term
  | Socket handle kind
  | Setsockopt handle "'m sockopt"
  | Getsockopt handle getopt
  | Bind handle string
  | Connect handle string
  | Disconnect handle string
  | Monitor handle "string option"
  | Monitor_Versioned handle string nat kind
  | Poll "handle list" int
  | Send handle 'm bool
  | Recv handle bool
  | Proxy handle handle
  | Close handle
  | Thread_Create string
  | Thread_Join string
  | Mutex_Lock
  | Mutex_Unlock
  | Tls_Set nat handle
  | Usleep int
  | Sleep int

text \<open>The sockets a call needs to be open.\<close>

fun uses :: "'m zcall \<Rightarrow> handle list" where
  "uses (Setsockopt h opt) = [h]"
| "uses (Getsockopt h opt) = [h]"
| "uses (Bind h addr) = [h]"
| "uses (Connect h addr) = [h]"
| "uses (Disconnect h addr) = [h]"
| "uses (Monitor h addr) = [h]"
| "uses (Monitor_Versioned h addr v k) = [h]"
| "uses (Poll hs t) = hs"
| "uses (Send h m nowait) = [h]"
| "uses (Recv h nowait) = [h]"
| "uses (Proxy h h') = [h, h']"
| "uses (Close h) = [h]"
| "uses (Tls_Set t h) = [h]"
| "uses c = []"

fun track_call :: "'m zcall \<Rightarrow> handle list \<Rightarrow> handle list option" where
  "track_call (Socket h k) hs = (if h \<in> set hs then None else Some (h # hs))"
| "track_call (Close h) hs = (if h \<in> set hs then Some (remove1 h hs) else None)"
| "track_call Ctx_Term hs = (if hs = [] then Some [] else None)"
| "track_call c hs = (if list_all (\<lambda>h. h \<in> set hs) (uses c) then Some hs else None)"

fun track :: "'m zcall list \<Rightarrow> handle list \<Rightarrow> handle list option" where
  "track [] hs = Some hs"
| "track (c # cs) hs = Option.bind (track_call c hs) (track cs)"

lemma track_append: "track (xs @ ys) hs = Option.bind (track xs hs) (track ys)"
  by (induction xs arbitrary: hs) (auto split: Option.bind_splits)

text \<open>A call that neither opens nor closes a socket, nor ends the context.\<close>

fun neutral :: "'m zcall \<Rightarrow> bool" where
  "neutral (Socket h k) = False"
| "neutral (Close h) = False"
| "neutral Ctx_Term = False"
| "neutral c = True"

lemma track_call_neutral:
  "neutral c \<Longrightarrow> track_call c hs = (if list_all (\<lambda>h. h \<in> set hs) (uses c) then Some hs else None)"
  by (cases c) auto

lemma track_neutral:
  "\<forall>c \<in> set cs. neutral c \<and> set (uses c) \<subseteq> set hs \<Longrightarrow> track cs hs = Some hs"
  by (induction cs) (auto simp: track_call_neutral list_all_iff)

text \<open>
  \<open>linger_at_close h cs\<close> is the linger period in force each time \<open>h\<close> is closed:
  \<open>None\<close> stands for the default, a close that may wait for ever.
\<close>

fun linger_run :: "handle \<Rightarrow> int option \<Rightarrow> 'm zcall list \<Rightarrow> int option list" where
  "linger_run h l [] = []"
| "linger_run h l (c # cs) =
     (case c of
        Setsockopt h' (Linger n) \<Rightarrow> linger_run h (if h' = h then Some n else l) cs
      | Socket h' k \<Rightarrow> linger_run h (if h' = h then None else l) cs
      | Close h' \<Rightarrow> (if h' = h then l # linger_run h l cs else linger_run h l cs)
      | _ \<Rightarrow> linger_run h l cs)"

definition linger_at_close :: "handle \<Rightarrow> 'm zcall list \<Rightarrow> int option list" where
  "linger_at_close h cs = linger_run h None cs"

fun sets_linger :: "'m zcall \<Rightarrow> bool" where
  "sets_linger (Setsockopt h (Linger n)) = True"
| "sets_linger c = False"

lemma linger_run_neutral:
  "\<forall>c \<in> set cs. neutral c \<and> \<not> sets_linger c \<Longrightarrow> linger_run h l (cs @ ds) = linger_run h l ds"
  by (induction cs) (auto split: zcall.splits sockopt.splits)

subsection \<open>Calls whose result is checked\<close>

text \<open>
  \<open>ret c\<close> is what the call \<open>c\<close> returns: a pointer for \<open>Socket\<close> (0 is the null pointer), the
  return code or the number of bytes for the others. A program that tests it with
  \<^verbatim>\<open>assert\<close> goes on, or aborts; one that uses \<^verbatim>\<open>CALL_INT_FUNC\<close> logs a negative code and goes
  on, so there the call alone is the model.
\<close>

type_synonym 'm returns = "'m zcall \<Rightarrow> int"

definition assert_that :: "bool \<Rightarrow> 'm zcall \<Rightarrow> fault + 'm zcall list" where
  "assert_that b c = (if b then Inr [c] else Inl Assert_Failed)"

definition assert_zero :: "'m returns \<Rightarrow> 'm zcall \<Rightarrow> fault + 'm zcall list" where
  "assert_zero ret c = assert_that (ret c = 0) c"

definition assert_nonnull :: "'m returns \<Rightarrow> 'm zcall \<Rightarrow> fault + 'm zcall list" where
  "assert_nonnull ret c = assert_that (ret c \<noteq> 0) c"

definition assert_nonneg :: "'m returns \<Rightarrow> 'm zcall \<Rightarrow> fault + 'm zcall list" where
  "assert_nonneg ret c = assert_that (0 \<le> ret c) c"

definition CALL_INT_FUNC :: "'m zcall \<Rightarrow> fault + 'm zcall list" where
  "CALL_INT_FUNC c = Inr [c]"

text \<open>Statements one after the other; the first fault ends the program.\<close>

fun stmts :: "(fault + 'a list) list \<Rightarrow> fault + 'a list" where
  "stmts [] = Inr []"
| "stmts (r # rs) = bind_res r (\<lambda>xs. bind_res (stmts rs) (\<lambda>ys. Inr (xs @ ys)))"

definition if_then :: "bool \<Rightarrow> fault + 'a list \<Rightarrow> fault + 'a list" where
  "if_then b r = (if b then r else Inr [])"

lemma assert_that_Inr_iff: "assert_that b c = Inr cs \<longleftrightarrow> b \<and> cs = [c]"
  by (auto simp: assert_that_def)

lemma assert_zero_Inr_iff: "assert_zero ret c = Inr cs \<longleftrightarrow> ret c = 0 \<and> cs = [c]"
  by (simp add: assert_zero_def assert_that_Inr_iff)

lemma assert_nonnull_Inr_iff: "assert_nonnull ret c = Inr cs \<longleftrightarrow> ret c \<noteq> 0 \<and> cs = [c]"
  by (simp add: assert_nonnull_def assert_that_Inr_iff)

lemma assert_nonneg_Inr_iff: "assert_nonneg ret c = Inr cs \<longleftrightarrow> 0 \<le> ret c \<and> cs = [c]"
  by (simp add: assert_nonneg_def assert_that_Inr_iff)

lemma CALL_INT_FUNC_Inr_iff: "CALL_INT_FUNC c = Inr cs \<longleftrightarrow> cs = [c]"
  by (auto simp: CALL_INT_FUNC_def)

lemma if_then_Inr_iff: "if_then b r = Inr cs \<longleftrightarrow> (if b then r = Inr cs else cs = [])"
  by (auto simp: if_then_def)

lemma stmts_Cons_Inr_iff:
  "stmts (r # rs) = Inr cs \<longleftrightarrow> (\<exists>xs ys. r = Inr xs \<and> stmts rs = Inr ys \<and> cs = xs @ ys)"
  by (auto simp: bind_res_Inr_iff)

lemma stmts_append:
  "stmts (rs @ qs) = bind_res (stmts rs) (\<lambda>xs. bind_res (stmts qs) (\<lambda>ys. Inr (xs @ ys)))"
proof (induction rs)
  case Nil
  then show ?case by (cases "stmts qs") auto
next
  case (Cons r rs)
  then show ?case by (cases r; cases "stmts rs"; cases "stmts qs") auto
qed

lemmas checked_iffs = assert_zero_Inr_iff assert_nonnull_Inr_iff assert_nonneg_Inr_iff
  assert_that_Inr_iff CALL_INT_FUNC_Inr_iff if_then_Inr_iff

text \<open>
  \<open>all_succeed sz ret\<close>: every call succeeds, as libzmq documents success: pointers are not
  null, sends return the number of bytes of the message, polls and receives a count, the
  rest 0. \<open>ret_success\<close> is one such function.
\<close>

definition all_succeed :: "('m \<Rightarrow> nat) \<Rightarrow> 'm returns \<Rightarrow> bool" where
  "all_succeed sz ret \<longleftrightarrow>
     (\<forall>c. case c of
            Ctx_New \<Rightarrow> 0 < ret c
          | Socket h k \<Rightarrow> 0 < ret c
          | Send h m nowait \<Rightarrow> ret c = int (sz m)
          | Poll hs t \<Rightarrow> 0 \<le> ret c
          | Recv h nowait \<Rightarrow> 0 \<le> ret c
          | _ \<Rightarrow> ret c = 0)"

definition ret_success :: "('m \<Rightarrow> nat) \<Rightarrow> 'm returns" where
  "ret_success sz c =
     (case c of Ctx_New \<Rightarrow> 1 | Socket h k \<Rightarrow> 1 | Send h m nowait \<Rightarrow> int (sz m) | _ \<Rightarrow> 0)"

lemma all_succeed_ret_success: "all_succeed sz (ret_success sz)"
  by (simp add: all_succeed_def ret_success_def split: zcall.splits)

lemma all_succeedD:
  assumes "all_succeed sz ret"
  shows "0 < ret Ctx_New" "0 < ret (Socket h k)" "ret (Send h m nowait) = int (sz m)"
    "0 \<le> ret (Poll hs t)" "0 \<le> ret (Recv h nowait)"
    "ret (Bind h a) = 0" "ret (Connect h a) = 0" "ret (Disconnect h a) = 0" "ret (Close h) = 0"
    "ret (Monitor h ma) = 0" "ret (Thread_Create f) = 0" "ret (Thread_Join f) = 0"
    "ret (Setsockopt h so) = 0" "ret (Ctx_Set_Blocky b) = 0" "ret Ctx_Term = 0"
    "ret Mutex_Lock = 0" "ret Mutex_Unlock = 0" "ret (Tls_Set n h) = 0"
proof -
  have ok: "case c of Ctx_New \<Rightarrow> 0 < ret c | Socket h k \<Rightarrow> 0 < ret c
      | Send h m nowait \<Rightarrow> ret c = int (sz m) | Poll hs t \<Rightarrow> 0 \<le> ret c
      | Recv h nowait \<Rightarrow> 0 \<le> ret c | _ \<Rightarrow> ret c = 0" for c
    using assms by (simp only: all_succeed_def)
  show "0 < ret Ctx_New" using ok [of Ctx_New] by simp
  show "0 < ret (Socket h k)" using ok [of "Socket h k"] by simp
  show "ret (Send h m nowait) = int (sz m)" using ok [of "Send h m nowait"] by simp
  show "0 \<le> ret (Poll hs t)" using ok [of "Poll hs t"] by simp
  show "0 \<le> ret (Recv h nowait)" using ok [of "Recv h nowait"] by simp
  show "ret (Bind h a) = 0" using ok [of "Bind h a"] by simp
  show "ret (Connect h a) = 0" using ok [of "Connect h a"] by simp
  show "ret (Disconnect h a) = 0" using ok [of "Disconnect h a"] by simp
  show "ret (Close h) = 0" using ok [of "Close h"] by simp
  show "ret (Monitor h ma) = 0" using ok [of "Monitor h ma"] by simp
  show "ret (Thread_Create f) = 0" using ok [of "Thread_Create f"] by simp
  show "ret (Thread_Join f) = 0" using ok [of "Thread_Join f"] by simp
  show "ret (Setsockopt h so) = 0" using ok [of "Setsockopt h so"] by simp
  show "ret (Ctx_Set_Blocky b) = 0" using ok [of "Ctx_Set_Blocky b"] by simp
  show "ret Ctx_Term = 0" using ok [of Ctx_Term] by simp
  show "ret Mutex_Lock = 0" using ok [of Mutex_Lock] by simp
  show "ret Mutex_Unlock = 0" using ok [of Mutex_Unlock] by simp
  show "ret (Tls_Set n h) = 0" using ok [of "Tls_Set n h"] by simp
qed

lemma assert_succeeds:
  assumes "all_succeed sz ret"
  shows "assert_nonnull ret (Socket h k) = Inr [Socket h k]"
    "assert_zero ret (Bind h a) = Inr [Bind h a]"
    "assert_zero ret (Connect h a) = Inr [Connect h a]"
    "assert_zero ret (Close h) = Inr [Close h]"
    "assert_zero ret (Monitor h ma) = Inr [Monitor h ma]"
    "assert_zero ret (Thread_Create f) = Inr [Thread_Create f]"
    "assert_zero ret (Thread_Join f) = Inr [Thread_Join f]"
    "assert_that (ret (Send h m nowait) = int (sz m)) c = Inr [c]"
  using all_succeedD [OF assms]
  by (simp_all add: assert_nonnull_def assert_zero_def assert_that_def less_imp_neq [symmetric])

subsection \<open>Connections of a socket\<close>

text \<open>
  The endpoints a socket is connected to after some calls, as libzmq documents
  \<^verbatim>\<open>zmq_connect\<close> and \<^verbatim>\<open>zmq_disconnect\<close>: disconnecting from an endpoint that is not connected
  changes nothing.
\<close>

fun link_step :: "handle \<Rightarrow> 'm zcall \<Rightarrow> string list \<Rightarrow> string list" where
  "link_step h (Connect h' e) l = (if h' = h then e # l else l)"
| "link_step h (Disconnect h' e) l = (if h' = h then remove1 e l else l)"
| "link_step h c l = l"

definition links :: "handle \<Rightarrow> 'm zcall list \<Rightarrow> string list" where
  "links h cs = fold (link_step h) cs []"

lemma links_append: "links h (xs @ ys) = fold (link_step h) ys (links h xs)"
  by (simp add: links_def)

text \<open>The messages sent on a socket.\<close>

definition sends_on :: "handle \<Rightarrow> 'm zcall list \<Rightarrow> 'm zcall list" where
  "sends_on h cs = filter (\<lambda>c. case c of Send h' m nowait \<Rightarrow> h' = h | _ \<Rightarrow> False) cs"

lemma sends_on_append [simp]: "sends_on h (xs @ ys) = sends_on h xs @ sends_on h ys"
  by (simp add: sends_on_def)

lemma sends_on_simps [simp]:
  "sends_on h [] = []"
  "sends_on h (Send h' m nowait # cs) = (if h' = h then Send h' m nowait # sends_on h cs else sends_on h cs)"
  "sends_on h (Poll hs t # cs) = sends_on h cs"
  "sends_on h (Recv h' nowait # cs) = sends_on h cs"
  "sends_on h (Getsockopt h' opt # cs) = sends_on h cs"
  "sends_on h (Connect h' a # cs) = sends_on h cs"
  "sends_on h (Disconnect h' a # cs) = sends_on h cs"
  "sends_on h (Socket h' k # cs) = sends_on h cs"
  "sends_on h (Setsockopt h' so # cs) = sends_on h cs"
  "sends_on h (Tls_Set i h' # cs) = sends_on h cs"
  "sends_on h (Mutex_Lock # cs) = sends_on h cs"
  "sends_on h (Mutex_Unlock # cs) = sends_on h cs"
  "sends_on h (Usleep n # cs) = sends_on h cs"
  by (simp_all add: sends_on_def)

end
