(* ===== verification/Wire.thy ===== *)
theory Wire
  imports C_Strings Zmq_Calls
begin

section \<open>Messages with a fixed layout\<close>

text \<open>
  The programs exchange C structures byte by byte. \<open>wire_format\<close> is what both ends rely
  on: every valid message has the width of the structure and is read back unchanged.
  A receiver reads into a structure it has on its stack (\<open>fill_buf\<close>).
\<close>

locale wire_format =
  fixes enc :: "'x \<Rightarrow> 'b list"
    and dec :: "'b list \<Rightarrow> fault + 'x"
    and width :: nat
    and valid :: "'x \<Rightarrow> bool"
  assumes length_enc: "valid x \<Longrightarrow> length (enc x) = width"
    and dec_enc: "valid x \<Longrightarrow> dec (enc x) = Inr x"
begin

lemma enc_inj: "valid x \<Longrightarrow> valid y \<Longrightarrow> enc x = enc y \<Longrightarrow> x = y"
  by (metis dec_enc sum.inject(2))

lemma dec_received: "valid x \<Longrightarrow> length buf = width \<Longrightarrow> dec (fill_buf buf (enc x)) = Inr x"
  by (simp add: length_enc dec_enc)

lemma dec_all: "list_all valid xs \<Longrightarrow> map (\<lambda>x. dec (enc x)) xs = map Inr xs"
  by (induction xs) (auto simp: dec_enc)

end

subsection \<open>The discovery message, \<^verbatim>\<open>connectMsg\<close> of 3186/common.h\<close>

definition ZMQ_MAX_ENDPOINT_LENGTH :: nat where
  "ZMQ_MAX_ENDPOINT_LENGTH = 256"

definition UUID_STRING_SIZE :: nat where
  "UUID_STRING_SIZE = 36"

text \<open>
  The three members are arrays of characters, so the structure has no padding: the
  command at 0, the uuid at 1, the endpoint after it.
\<close>

record connect_msg =
  command :: char
  uuid :: string
  endpoint :: string

definition uuid_size :: nat where
  "uuid_size = UUID_STRING_SIZE + 1"

definition endpoint_size :: nat where
  "endpoint_size = ZMQ_MAX_ENDPOINT_LENGTH + 1"

definition connect_msg_size :: nat where
  "connect_msg_size = 1 + uuid_size + endpoint_size"

text \<open>
  \<open>fill_connect_msg\<close> is the body of \<^verbatim>\<open>sendConnectMsg\<close> up to the send: \<open>msg\<close> is what the
  structure's memory holds before, which the copies leave in place after each terminator.
\<close>

definition fill_connect_msg :: "string \<Rightarrow> char \<Rightarrow> string \<Rightarrow> string \<Rightarrow> fault + string" where
  "fill_connect_msg msg cmd u e =
     bind_res (strcpy_buf (take uuid_size (drop 1 msg)) u) (\<lambda>ub.
     bind_res (strcpy_buf (drop (1 + uuid_size) msg) e) (\<lambda>eb.
       Inr (cmd # ub @ eb)))"

definition sendConnectMsg ::
  "string \<Rightarrow> handle \<Rightarrow> char \<Rightarrow> string \<Rightarrow> string \<Rightarrow> fault + string zcall list" where
  "sendConnectMsg stack sock cmd u e =
     bind_res (fill_connect_msg stack cmd u e) (\<lambda>msg. Inr [Send sock msg False])"

text \<open>What the receiver reads of the structure.\<close>

definition read_connect_msg :: "string \<Rightarrow> fault + connect_msg" where
  "read_connect_msg msg =
     (case msg of
        [] \<Rightarrow> Inl Buffer_Overflow
      | c # rest \<Rightarrow>
          bind_res (cstr_in (take uuid_size rest)) (\<lambda>u.
          bind_res (cstr_in (drop uuid_size rest)) (\<lambda>e.
            Inr \<lparr>command = c, uuid = u, endpoint = e\<rparr>)))"

definition sendable :: "string \<Rightarrow> string \<Rightarrow> bool" where
  "sendable u e \<longleftrightarrow> no_nul u \<and> no_nul e \<and> length u \<le> UUID_STRING_SIZE
     \<and> length e \<le> ZMQ_MAX_ENDPOINT_LENGTH"

lemmas layout_defs = connect_msg_size_def uuid_size_def endpoint_size_def
  UUID_STRING_SIZE_def ZMQ_MAX_ENDPOINT_LENGTH_def

lemma fill_connect_msg_eq:
  assumes "length msg = connect_msg_size"
  shows "fill_connect_msg msg cmd u e =
    (if length u < uuid_size \<and> length e < endpoint_size
     then Inr (cmd # (u @ NUL # drop (Suc (length u)) (take uuid_size (drop 1 msg)))
                   @ (e @ NUL # drop (Suc (length e)) (drop (1 + uuid_size) msg)))
     else Inl Buffer_Overflow)"
  using assms by (auto simp: fill_connect_msg_def strcpy_buf_def layout_defs)

lemma fill_connect_msg_length:
  "length msg = connect_msg_size \<Longrightarrow> fill_connect_msg msg cmd u e = Inr bs \<Longrightarrow>
     length bs = connect_msg_size"
  by (auto simp: fill_connect_msg_eq layout_defs split: if_splits)

lemma read_fill_connect_msg:
  assumes len: "length msg = connect_msg_size" and ok: "sendable u e"
  shows "bind_res (fill_connect_msg msg cmd u e) read_connect_msg =
    Inr \<lparr>command = cmd, uuid = u, endpoint = e\<rparr>"
proof -
  define ub where "ub = u @ NUL # drop (Suc (length u)) (take uuid_size (drop 1 msg))"
  define eb where "eb = e @ NUL # drop (Suc (length e)) (drop (1 + uuid_size) msg)"
  from ok have short: "length u < uuid_size" "length e < endpoint_size"
    and clean: "no_nul u" "no_nul e"
    by (auto simp: sendable_def layout_defs)
  from len short have "length ub = uuid_size"
    by (auto simp: ub_def layout_defs)
  moreover from clean have "cstr_in ub = Inr u" "cstr_in eb = Inr e"
    by (simp_all add: ub_def eb_def)
  moreover from len short have "fill_connect_msg msg cmd u e = Inr (cmd # ub @ eb)"
    by (simp add: fill_connect_msg_eq ub_def eb_def)
  ultimately show ?thesis
    by (simp add: read_connect_msg_def)
qed

text \<open>\<open>connectMsg\<close> as a wire format, from whatever the sender's stack held.\<close>

definition connect_msg_image :: "string \<Rightarrow> connect_msg \<Rightarrow> string" where
  "connect_msg_image stack m =
     (case fill_connect_msg stack (command m) (uuid m) (endpoint m) of
        Inl _ \<Rightarrow> [] | Inr bs \<Rightarrow> bs)"

definition sendable_msg :: "connect_msg \<Rightarrow> bool" where
  "sendable_msg m \<longleftrightarrow> sendable (uuid m) (endpoint m)"

interpretation connect_wire: wire_format
  "connect_msg_image (replicate connect_msg_size NUL)" read_connect_msg connect_msg_size sendable_msg
proof unfold_locales
  fix m
  assume "sendable_msg m"
  then have ok: "sendable (uuid m) (endpoint m)" by (simp add: sendable_msg_def)
  let ?z = "replicate connect_msg_size NUL"
  from read_fill_connect_msg [OF _ ok, of ?z "command m"]
  obtain bs where bs: "fill_connect_msg ?z (command m) (uuid m) (endpoint m) = Inr bs"
    "read_connect_msg bs = Inr m"
    by (auto simp: bind_res_Inr_iff)
  then show "read_connect_msg (connect_msg_image ?z m) = Inr m"
    by (simp add: connect_msg_image_def)
  from bs(1) show "length (connect_msg_image ?z m) = connect_msg_size"
    using fill_connect_msg_length [OF _ bs(1)] by (simp add: connect_msg_image_def)
qed

lemma sendConnectMsg_ok:
  assumes "length stack = connect_msg_size" "sendable u e"
  shows "\<exists>bs. sendConnectMsg stack sock cmd u e = Inr [Send sock bs False]
    \<and> read_connect_msg bs = Inr \<lparr>command = cmd, uuid = u, endpoint = e\<rparr>"
  using read_fill_connect_msg [OF assms, of cmd]
  by (auto simp: sendConnectMsg_def bind_res_Inr_iff)

end
