(* ===== verification/Event_Loop.thy ===== *)
theory Event_Loop
  imports Prelude
begin

section \<open>Event loops\<close>

text \<open>
  Every program of the repository is built around a loop \<^verbatim>\<open>while (1)\<close> or
  \<^verbatim>\<open>while (keepGoing)\<close> that polls sockets and handles what came in. One iteration is a
  function of what the outside world delivers in it and of the program's state; it gives
  a fault, or the next state, what the iteration did, and whether it left the loop.
  \<open>run_loop\<close> runs the loop over a list of such inputs.

  The locales are what a loop has to provide for the facts below: an invariant relating
  what was done to the state (\<open>traced_loop\<close>), one on the state alone (\<open>state_loop\<close>), and
  freedom from faults (\<open>safe_loop\<close>).
\<close>

type_synonym ('i, 's, 'a, 'e) iteration = "'i \<Rightarrow> 's \<Rightarrow> 'e + 's \<times> 'a list \<times> bool"

fun run_loop :: "('i, 's, 'a, 'e) iteration \<Rightarrow> 'i list \<Rightarrow> 's \<Rightarrow> 'e + 's \<times> 'a list \<times> bool" where
  "run_loop f [] s = Inr (s, [], False)"
| "run_loop f (i # is) s =
     bind_res (f i s) (\<lambda>(s', as, stop).
       if stop then Inr (s', as, True)
       else bind_res (run_loop f is s') (\<lambda>(s'', bs, stop'). Inr (s'', as @ bs, stop')))"

lemma run_loop_stopD:
  assumes "run_loop f is s = Inr (s', as, True)"
  shows "\<exists>xs i ys s1 bs cs. is = xs @ i # ys \<and> run_loop f xs s = Inr (s1, bs, False)
           \<and> f i s1 = Inr (s', cs, True) \<and> as = bs @ cs"
  using assms
proof (induction "is" arbitrary: s as)
  case Nil
  then show ?case by simp
next
  case (Cons i "is")
  from Cons.prems obtain s1 cs stop where fi: "f i s = Inr (s1, cs, stop)"
    by (auto simp: bind_res_Inr_iff)
  show ?case
  proof (cases stop)
    case True
    with fi Cons.prems have "f i s = Inr (s', as, True)" by simp
    then show ?thesis by (intro exI [of _ "[]"]) auto
  next
    case False
    with fi Cons.prems obtain bs where
      rest: "run_loop f is s1 = Inr (s', bs, True)" and as: "as = cs @ bs"
      by (auto simp: bind_res_Inr_iff)
    from Cons.IH [OF rest] obtain xs j ys s2 ds es where
      split: "is = xs @ j # ys" "run_loop f xs s1 = Inr (s2, ds, False)"
        "f j s2 = Inr (s', es, True)" "bs = ds @ es" by blast
    with fi False have "run_loop f (i # xs) s = Inr (s2, cs @ ds, False)" by simp
    with split as show ?thesis by (intro exI [of _ "i # xs"]) auto
  qed
qed

lemma run_loop_never_stops:
  assumes "\<And>i s s' as. f i s \<noteq> Inr (s', as, True)"
  shows "run_loop f is s \<noteq> Inr (s', as, True)"
  using assms run_loop_stopD [of f "is" s s' as] by blast

lemma run_loop_append:
  "run_loop f (xs @ ys) s =
     bind_res (run_loop f xs s) (\<lambda>(s', as, stop).
       if stop then Inr (s', as, True)
       else bind_res (run_loop f ys s') (\<lambda>(s'', bs, stop'). Inr (s'', as @ bs, stop')))"
proof (induction xs arbitrary: s)
  case Nil
  then show ?case by (auto simp: bind_res_def split: sum.splits)
next
  case (Cons x xs)
  then show ?case by (auto simp: bind_res_def split: sum.splits)
qed

text \<open>Two loops whose rounds agree once some calls are dropped agree on every run.\<close>

lemma run_loop_filter:
  assumes "\<And>i s. bind_res (f i s) (\<lambda>(s', as, b). Inr (s', filter P as, b)) = g i s"
  shows "bind_res (run_loop f is s) (\<lambda>(s', as, b). Inr (s', filter P as, b)) = run_loop g is s"
proof (induction "is" arbitrary: s)
  case Nil
  then show ?case by simp
next
  case (Cons i "is")
  show ?case
  proof (cases "f i s")
    case (Inl e)
    with assms [of i s, symmetric] show ?thesis by simp
  next
    case (Inr r)
    obtain s1 as b where r: "r = (s1, as, b)" by (cases r)
    with assms [of i s, symmetric] Inr have "g i s = Inr (s1, filter P as, b)" by simp
    with Inr r Cons.IH [of s1, symmetric] show ?thesis
      by (auto simp: bind_res_def split: sum.splits)
  qed
qed

subsection \<open>Interfaces\<close>

locale traced_loop =
  fixes iter :: "('i, 's, 'a, 'e) iteration"
    and adm :: "'i \<Rightarrow> bool"
    and good :: "'a list \<Rightarrow> 's \<Rightarrow> bool"
  assumes good_iter:
    "good h s \<Longrightarrow> adm i \<Longrightarrow> iter i s = Inr (s', as, stop) \<Longrightarrow> good (h @ as) s'"
begin

lemma good_run:
  "good h s \<Longrightarrow> list_all adm is \<Longrightarrow> run_loop iter is s = Inr (s', as, stop) \<Longrightarrow> good (h @ as) s'"
proof (induction "is" arbitrary: h s as)
  case Nil
  then show ?case by simp
next
  case (Cons i "is")
  from Cons.prems(3) obtain s1 bs b where it: "iter i s = Inr (s1, bs, b)"
    by (auto simp: bind_res_Inr_iff)
  from Cons.prems(1,2) it have g1: "good (h @ bs) s1" by (auto intro: good_iter)
  show ?case
  proof (cases b)
    case True
    with it Cons.prems(3) g1 show ?thesis by simp
  next
    case False
    with it Cons.prems(3) obtain cs where
      "run_loop iter is s1 = Inr (s', cs, stop)" and "as = bs @ cs"
      by (auto simp: bind_res_Inr_iff)
    with Cons.IH [OF g1] Cons.prems(2) show ?thesis by simp
  qed
qed

end

locale state_loop =
  fixes iter :: "('i, 's, 'a, 'e) iteration"
    and adm :: "'i \<Rightarrow> bool"
    and inv :: "'s \<Rightarrow> bool"
  assumes inv_iter: "inv s \<Longrightarrow> adm i \<Longrightarrow> iter i s = Inr (s', as, stop) \<Longrightarrow> inv s'"

sublocale state_loop \<subseteq> traced: traced_loop iter adm "\<lambda>_. inv"
  by unfold_locales (rule inv_iter)

context state_loop
begin

lemma inv_run: "inv s \<Longrightarrow> list_all adm is \<Longrightarrow> run_loop iter is s = Inr (s', as, stop) \<Longrightarrow> inv s'"
  by (rule traced.good_run)

end

locale safe_loop = state_loop +
  assumes no_fault: "inv s \<Longrightarrow> adm i \<Longrightarrow> \<exists>r. iter i s = Inr r"
begin

lemma run_no_fault: "inv s \<Longrightarrow> list_all adm is \<Longrightarrow> \<exists>r. run_loop iter is s = Inr r"
proof (induction "is" arbitrary: s)
  case Nil
  show ?case by (rule exI) (rule run_loop.simps)
next
  case (Cons i "is")
  then obtain s1 as b where it: "iter i s = Inr (s1, as, b)"
    using no_fault [of s i] by auto
  with Cons.prems have "inv s1" by (auto intro: inv_iter)
  with Cons.IH [of s1] Cons.prems(2) obtain s2 bs b2 where "run_loop iter is s1 = Inr (s2, bs, b2)"
    by auto
  with it show ?case by (cases b) auto
qed

end

end
