(* ===== verification/Monitor.thy ===== *)
theory Monitor
  imports Wire Event_Loop
begin

section \<open>The socket monitors\<close>

text \<open>
  3186/monitor.cpp (repeated in reconnect/monitor.cpp, which adds an overload, and in
  connect/monitor.cpp, which adds the second version of the event format). The monitor
  thread connects a PAIR socket to each monitored socket of the program, logs the events
  that arrive on them, and ends when its control socket becomes readable.
\<close>

subsection \<open>Event names\<close>

text \<open>
  The events up to \<^verbatim>\<open>ZMQ_EVENT_MONITOR_STOPPED\<close> are numbered by libzmq's interface; the
  handshake events are numbered by the monitor itself (3186/monitor.cpp, lines 17 to 26).
\<close>

definition ZMQ_EVENT_CONNECTED :: int where "ZMQ_EVENT_CONNECTED = 0x0001"
definition ZMQ_EVENT_CONNECT_DELAYED :: int where "ZMQ_EVENT_CONNECT_DELAYED = 0x0002"
definition ZMQ_EVENT_CONNECT_RETRIED :: int where "ZMQ_EVENT_CONNECT_RETRIED = 0x0004"
definition ZMQ_EVENT_LISTENING :: int where "ZMQ_EVENT_LISTENING = 0x0008"
definition ZMQ_EVENT_BIND_FAILED :: int where "ZMQ_EVENT_BIND_FAILED = 0x0010"
definition ZMQ_EVENT_ACCEPTED :: int where "ZMQ_EVENT_ACCEPTED = 0x0020"
definition ZMQ_EVENT_ACCEPT_FAILED :: int where "ZMQ_EVENT_ACCEPT_FAILED = 0x0040"
definition ZMQ_EVENT_CLOSED :: int where "ZMQ_EVENT_CLOSED = 0x0080"
definition ZMQ_EVENT_CLOSE_FAILED :: int where "ZMQ_EVENT_CLOSE_FAILED = 0x0100"
definition ZMQ_EVENT_DISCONNECTED :: int where "ZMQ_EVENT_DISCONNECTED = 0x0200"
definition ZMQ_EVENT_MONITOR_STOPPED :: int where "ZMQ_EVENT_MONITOR_STOPPED = 0x0400"
definition ZMQ_EVENT_HANDSHAKE_FAILED_NO_DETAIL :: int where
  "ZMQ_EVENT_HANDSHAKE_FAILED_NO_DETAIL = 0x0800"
definition ZMQ_EVENT_HANDSHAKE_SUCCEEDED :: int where "ZMQ_EVENT_HANDSHAKE_SUCCEEDED = 0x1000"
definition ZMQ_EVENT_HANDSHAKE_FAILED_PROTOCOL :: int where
  "ZMQ_EVENT_HANDSHAKE_FAILED_PROTOCOL = 0x2000"
definition ZMQ_EVENT_HANDSHAKE_FAILED_AUTH :: int where "ZMQ_EVENT_HANDSHAKE_FAILED_AUTH = 0x4000"

lemmas event_codes =
  ZMQ_EVENT_CONNECTED_def ZMQ_EVENT_CONNECT_DELAYED_def ZMQ_EVENT_CONNECT_RETRIED_def
  ZMQ_EVENT_LISTENING_def ZMQ_EVENT_BIND_FAILED_def ZMQ_EVENT_ACCEPTED_def
  ZMQ_EVENT_ACCEPT_FAILED_def ZMQ_EVENT_CLOSED_def ZMQ_EVENT_CLOSE_FAILED_def
  ZMQ_EVENT_DISCONNECTED_def ZMQ_EVENT_MONITOR_STOPPED_def
  ZMQ_EVENT_HANDSHAKE_FAILED_NO_DETAIL_def ZMQ_EVENT_HANDSHAKE_SUCCEEDED_def
  ZMQ_EVENT_HANDSHAKE_FAILED_PROTOCOL_def ZMQ_EVENT_HANDSHAKE_FAILED_AUTH_def

definition get_zmqEventName :: "int \<Rightarrow> string" where
  "get_zmqEventName event =
    (if event = ZMQ_EVENT_CONNECTED then ''CONNECTED''
     else if event = ZMQ_EVENT_CONNECT_DELAYED then ''CONNECT_DELAYED''
     else if event = ZMQ_EVENT_CONNECT_RETRIED then ''CONNECT_RETRIED''
     else if event = ZMQ_EVENT_LISTENING then ''LISTENING''
     else if event = ZMQ_EVENT_BIND_FAILED then ''BIND_FAILED''
     else if event = ZMQ_EVENT_ACCEPTED then ''ACCEPTED''
     else if event = ZMQ_EVENT_ACCEPT_FAILED then ''ACCEPT_FAILED''
     else if event = ZMQ_EVENT_CLOSED then ''CLOSED''
     else if event = ZMQ_EVENT_CLOSE_FAILED then ''CLOSE_FAILED''
     else if event = ZMQ_EVENT_DISCONNECTED then ''DISCONNECTED''
     else if event = ZMQ_EVENT_MONITOR_STOPPED then ''MONITOR_STOPPED''
     else if event = ZMQ_EVENT_HANDSHAKE_FAILED_NO_DETAIL then ''HANDSHAKE_FAILED_NO_DETAIL''
     else if event = ZMQ_EVENT_HANDSHAKE_SUCCEEDED then ''HANDSHAKE_SUCCEEDED''
     else if event = ZMQ_EVENT_HANDSHAKE_FAILED_PROTOCOL then ''HANDSHAKE_FAILED_PROTOCOL''
     else if event = ZMQ_EVENT_HANDSHAKE_FAILED_AUTH then ''HANDSHAKE_FAILED_AUTH''
     else ''UNKNOWN'')"

subsection \<open>Reading an event, first version\<close>

text \<open>
  A frame as a receive gives it: its bytes and whether more frames of the message follow;
  \<open>None\<close> is a receive that returned -1. The first frame is the packed structure
  \<^verbatim>\<open>zmq_monitor_frame1\<close>, the second the address, without a terminator.
\<close>

type_synonym frame = "byte list \<times> bool"

record mon_log =
  log_name :: string
  log_value :: int
  log_event :: int
  log_desc :: string
  log_endpoint :: "byte list"

record zmq_monitor_frame1 =
  fr_event :: u16
  fr_value :: u32

definition read_frame1 :: "byte list \<Rightarrow> fault + zmq_monitor_frame1" where
  "read_frame1 data =
     (if length data < 6 then Inl Buffer_Overflow
      else Inr \<lparr>fr_event = le_word (take 2 data), fr_value = le_word (take 4 (drop 2 data))\<rparr>)"

text \<open>
  \<open>read_endpoint\<close>: the address is copied over an array of 257 zeros and printed as a
  string, so it must fit and leave a terminator.
\<close>

definition read_endpoint :: "byte list \<Rightarrow> fault + byte list" where
  "read_endpoint data =
     (if length data > ZMQ_MAX_ENDPOINT_LENGTH + 1 then Inl Buffer_Overflow
      else if length data = ZMQ_MAX_ENDPOINT_LENGTH + 1 \<and> 0 \<notin> set data then Inl Unterminated
      else Inr (takeWhile (\<lambda>b. b \<noteq> 0) data))"

text \<open>
  \<open>monitorEvent\<close> gives the return code and the lines logged. \<^verbatim>\<open>int value = pFrame1->value\<close>
  reads the unsigned 32-bit member as a signed integer.
\<close>

definition monitorEvent :: "frame option \<Rightarrow> frame option \<Rightarrow> string \<Rightarrow> fault + int \<times> mon_log list" where
  "monitorEvent frame1 frame2 name =
     (case frame1 of
        None \<Rightarrow> Inr (-1, [])
      | Some (data1, more1) \<Rightarrow>
          bind_res (require more1 Assert_Failed) (\<lambda>_.
          bind_res (read_frame1 data1) (\<lambda>f1.
          let event = uint (fr_event f1); value = sint (fr_value f1) in
          case frame2 of
            None \<Rightarrow> Inr (-1, [])
          | Some (data2, more2) \<Rightarrow>
              bind_res (require (\<not> more2) Assert_Failed) (\<lambda>_.
              bind_res (read_endpoint data2) (\<lambda>ep.
                Inr (0, [\<lparr>log_name = name, log_value = value, log_event = event,
                          log_desc = get_zmqEventName event, log_endpoint = ep\<rparr>]))))))"

subsection \<open>The monitor thread\<close>

abbreviation mon_dataPub :: handle where "mon_dataPub \<equiv> Var ''monitor.dataPub''"
abbreviation mon_dataSub :: handle where "mon_dataSub \<equiv> Var ''monitor.dataSub''"
abbreviation mon_proxyPub :: handle where "mon_proxyPub \<equiv> Var ''monitor.proxyPub''"
abbreviation mon_proxySub :: handle where "mon_proxySub \<equiv> Var ''monitor.proxySub''"
abbreviation monitorSub :: handle where "monitorSub \<equiv> Var ''monitorSub''"
abbreviation monitorPub :: handle where "monitorPub \<equiv> Var ''monitorPub''"

definition monitored :: "(handle \<times> string) list" where
  "monitored = [(mon_dataPub, ''dataPub''), (mon_dataSub, ''dataSub''),
     (mon_proxyPub, ''proxyPub''), (mon_proxySub, ''proxySub'')]"

text \<open>
  One round of the thread: \<open>ready\<close> says which of the four sockets poll found readable,
  \<open>got\<close> what the two receives on one of them give, \<open>control\<close> whether the control socket is
  readable. What a round does is the receives it makes and the lines it logs.
\<close>

datatype mon_act = Mon_Call "string zcall" | Mon_Log mon_log

record mon_input =
  ready :: "string \<Rightarrow> bool"
  got :: "string \<Rightarrow> frame option \<times> frame option"
  control :: bool

definition monitor_socket :: "mon_input \<Rightarrow> handle \<times> string \<Rightarrow> fault + mon_act list" where
  "monitor_socket i hn =
     (case hn of (h, name) \<Rightarrow>
        if ready i name then
          bind_res (monitorEvent (fst (got i name)) (snd (got i name)) name) (\<lambda>(rc, logs).
          bind_res (require (rc = 0) Assert_Failed) (\<lambda>_.
            Inr ([Mon_Call (Recv h False), Mon_Call (Recv h False)] @ map Mon_Log logs)))
        else Inr [])"

definition monitor_iter :: "(mon_input, unit, mon_act, fault) iteration" where
  "monitor_iter i s =
     bind_res (stmts (map (monitor_socket i) monitored)) (\<lambda>acts.
       Inr (s, Mon_Call (Poll (map fst monitored @ [monitorSub]) (-1)) # acts, control i))"

definition monitor_open :: "string returns \<Rightarrow> fault + string zcall list" where
  "monitor_open ret =
     stmts (concat (map (\<lambda>(h, name).
       [assert_nonnull ret (Socket h ZMQ_PAIR), assert_zero ret (Connect h (''inproc://'' @ name))]) monitored))"

definition monitor_close :: "string returns \<Rightarrow> fault + string zcall list" where
  "monitor_close ret = stmts (map (\<lambda>(h, name). assert_zero ret (Close h)) monitored)"

text \<open>\<open>monitorFunc\<close>: \<open>None\<close> in the second place of the result is a thread still in its loop.\<close>

definition monitorFunc ::
  "string returns \<Rightarrow> mon_input list \<Rightarrow> fault + mon_act list \<times> bool" where
  "monitorFunc ret inputs =
     bind_res (monitor_open ret) (\<lambda>opened.
     bind_res (run_loop monitor_iter inputs ()) (\<lambda>(_, acts, stopped).
       if stopped then
         bind_res (monitor_close ret) (\<lambda>closed.
           Inr (map Mon_Call opened @ acts @ map Mon_Call closed, True))
       else Inr (map Mon_Call opened @ acts, False)))"

definition startMonitor :: "string returns \<Rightarrow> fault + string zcall list" where
  "startMonitor ret = stmts
     [assert_nonnull ret (Socket monitorSub ZMQ_SERVER),
      assert_zero ret (Bind monitorSub ''inproc://monitor''),
      assert_nonnull ret (Socket monitorPub ZMQ_CLIENT),
      assert_zero ret (Connect monitorPub ''inproc://monitor''),
      assert_zero ret (Thread_Create ''monitorFunc'')]"

text \<open>The overload of reconnect/monitor.cpp and connect/monitor.cpp starts a given function.\<close>

definition startMonitor_with :: "string returns \<Rightarrow> string \<Rightarrow> fault + string zcall list" where
  "startMonitor_with ret function = stmts
     [assert_nonnull ret (Socket monitorSub ZMQ_SERVER),
      assert_zero ret (Bind monitorSub ''inproc://monitor''),
      assert_nonnull ret (Socket monitorPub ZMQ_CLIENT),
      assert_zero ret (Connect monitorPub ''inproc://monitor''),
      assert_zero ret (Thread_Create function)]"

definition stopMonitor :: "string returns \<Rightarrow> fault + string zcall list" where
  "stopMonitor ret = stmts
     [assert_that (ret (Send monitorPub ''X'' False) = 1) (Send monitorPub ''X'' False),
      assert_zero ret (Thread_Join ''monitorFunc''),
      assert_zero ret (Close monitorPub),
      assert_zero ret (Close monitorSub)]"

subsection \<open>The second version of the event format\<close>

text \<open>
  connect/monitor.cpp reads events of the second version: the event, the number of values,
  the values, the local and the remote address, one frame each. \<open>recv k\<close> is the \<open>k\<close>-th
  receive of the call. The function is declared to return an unsigned 64-bit integer, and
  -1 becomes the largest one; the caller stores it in an \<^verbatim>\<open>int\<close>.
\<close>

record mon_log2 =
  log2_name :: string
  log2_event :: string
  log2_value :: u64
  log2_local :: "byte list"
  log2_remote :: "byte list"

definition read_u64 :: "byte list \<Rightarrow> fault + u64" where
  "read_u64 data = (if length data < 8 then Inl Buffer_Overflow else Inr (le_word (take 8 data)))"

fun read_values ::
  "(nat \<Rightarrow> byte list option) \<Rightarrow> nat \<Rightarrow> nat \<Rightarrow> u64 \<Rightarrow> fault + u64 option" where
  "read_values recv k 0 value = Inr (Some value)"
| "read_values recv k (Suc n) value =
     (case recv k of
        None \<Rightarrow> Inr None
      | Some data \<Rightarrow> bind_res (read_u64 data) (\<lambda>v. read_values recv (Suc k) n v))"

definition monitorEvent_v2 ::
  "(nat \<Rightarrow> byte list option) \<Rightarrow> string \<Rightarrow> fault + u64 \<times> mon_log2 list" where
  "monitorEvent_v2 recv name =
     (case recv 0 of
        None \<Rightarrow> Inr (-1, [])
      | Some d0 \<Rightarrow>
          bind_res (read_u64 d0) (\<lambda>event.
          let eventName = get_zmqEventName (sint (ucast event :: u32)) in
          case recv 1 of
            None \<Rightarrow> Inr (-1, [])
          | Some d1 \<Rightarrow>
              bind_res (read_u64 d1) (\<lambda>value_count.
              bind_res (read_values recv 2 (unat value_count) 0) (\<lambda>last_value.
              case last_value of
                None \<Rightarrow> Inr (-1, [])
              | Some value \<Rightarrow>
                  (case recv (2 + unat value_count) of
                     None \<Rightarrow> Inr (-1, [])
                   | Some d2 \<Rightarrow>
                       bind_res (read_endpoint d2) (\<lambda>local_address.
                       case recv (3 + unat value_count) of
                         None \<Rightarrow> Inr (-1, [])
                       | Some d3 \<Rightarrow>
                           bind_res (read_endpoint d3) (\<lambda>remote_address.
                             Inr (0, [\<lparr>log2_name = name, log2_event = eventName, log2_value = value,
                                       log2_local = local_address, log2_remote = remote_address\<rparr>]))))))))"

text \<open>
  The monitor threads of connect/monitor.cpp and of reconnect/connect.cpp poll one socket
  and have no way out of their loop. A round gets the receives it makes, or \<open>None\<close> when
  poll found nothing. An event that is read to its end takes a receive for each frame.
\<close>

definition v2_receives :: "(nat \<Rightarrow> byte list option) \<Rightarrow> nat" where
  "v2_receives recv =
     (case recv 1 of
        None \<Rightarrow> 2
      | Some d1 \<Rightarrow> (case read_u64 d1 of Inl _ \<Rightarrow> 2 | Inr value_count \<Rightarrow> 4 + unat value_count))"

definition connect_monitor_iter ::
  "((nat \<Rightarrow> byte list option) option, unit, string zcall + mon_log2, fault) iteration" where
  "connect_monitor_iter i s =
     (case i of
        None \<Rightarrow> Inr (s, [Inl (Poll [mon_dataSub] (-1))], False)
      | Some recv \<Rightarrow>
          bind_res (monitorEvent_v2 recv ''dataSub'') (\<lambda>(rc, logs).
          bind_res (require ((ucast rc :: u32) = 0) Assert_Failed) (\<lambda>_.
            Inr (s, Inl (Poll [mon_dataSub] (-1)) # replicate (v2_receives recv) (Inl (Recv mon_dataSub False))
                    @ map Inr logs, False))))"

definition reconnect_monitor_iter ::
  "((frame option \<times> frame option) option, unit, mon_act, fault) iteration" where
  "reconnect_monitor_iter i s =
     (case i of
        None \<Rightarrow> Inr (s, [Mon_Call (Poll [mon_dataSub] (-1))], False)
      | Some (f1, f2) \<Rightarrow>
          bind_res (monitorEvent f1 f2 ''dataSub'') (\<lambda>(rc, logs).
          bind_res (require (rc = 0) Assert_Failed) (\<lambda>_.
            Inr (s, [Mon_Call (Poll [mon_dataSub] (-1)), Mon_Call (Recv mon_dataSub False),
                     Mon_Call (Recv mon_dataSub False)] @ map Mon_Log logs, False))))"

text \<open>
  A monitor thread: sockets, loop, and the closes after it. \<^verbatim>\<open>pthread_join\<close> returns for the
  thread when its function has: \<open>thread_returns\<close> says whether it does on the inputs.
\<close>

definition connect_monitorFunc ::
  "string returns \<Rightarrow> (nat \<Rightarrow> byte list option) option list \<Rightarrow> fault + (string zcall + mon_log2) list \<times> bool" where
  "connect_monitorFunc ret inputs =
     bind_res (stmts [assert_nonnull ret (Socket mon_dataSub ZMQ_PAIR),
                      assert_zero ret (Connect mon_dataSub ''inproc://dataSub'')]) (\<lambda>opened.
     bind_res (run_loop connect_monitor_iter inputs ()) (\<lambda>(_, acts, stopped).
       if stopped then
         bind_res (assert_zero ret (Close mon_dataSub)) (\<lambda>closed.
           Inr (map Inl opened @ acts @ map Inl closed, True))
       else Inr (map Inl opened @ acts, False)))"

definition connectMonitor ::
  "string returns \<Rightarrow> (frame option \<times> frame option) option list \<Rightarrow> fault + mon_act list \<times> bool" where
  "connectMonitor ret inputs =
     bind_res (stmts [assert_nonnull ret (Socket mon_dataSub ZMQ_PAIR),
                      assert_zero ret (Connect mon_dataSub ''inproc://dataSub'')]) (\<lambda>opened.
     bind_res (run_loop reconnect_monitor_iter inputs ()) (\<lambda>(_, acts, stopped).
       if stopped then
         bind_res (assert_zero ret (Close mon_dataSub)) (\<lambda>closed.
           Inr (map Mon_Call opened @ acts @ map Mon_Call closed, True))
       else Inr (map Mon_Call opened @ acts, False)))"

subsection \<open>Facts about the monitors\<close>

lemma connect_monitor_iter_goes_on: "connect_monitor_iter i s \<noteq> Inr (s', as, True)"
  by (auto simp: connect_monitor_iter_def bind_res_Inr_iff split: option.splits)

lemma reconnect_monitor_iter_goes_on: "reconnect_monitor_iter i s \<noteq> Inr (s', as, True)"
  by (auto simp: reconnect_monitor_iter_def bind_res_Inr_iff split: option.splits)

lemma takeWhile_address:
  "0 \<notin> set (addr :: byte list) \<Longrightarrow> takeWhile (\<lambda>b. b \<noteq> 0) addr = addr"
  by (induction addr) auto

lemma read_endpoint_ok:
  "0 \<notin> set addr \<Longrightarrow> length addr \<le> ZMQ_MAX_ENDPOINT_LENGTH \<Longrightarrow> read_endpoint addr = Inr addr"
  by (simp add: read_endpoint_def takeWhile_address ZMQ_MAX_ENDPOINT_LENGTH_def)

lemma read_frame1_image:
  "read_frame1 (le_bytes 2 (ev :: u16) @ le_bytes 4 (v :: u32)) = Inr \<lparr>fr_event = ev, fr_value = v\<rparr>"
  by (simp add: read_frame1_def le_word_le_bytes)

lemma read_u64_image: "read_u64 (le_bytes 8 (w :: u64)) = Inr w"
  by (simp add: read_u64_def le_word_le_bytes)

text \<open>The layout of a version 2 event, as a sender produces it.\<close>

definition v2_frames :: "u64 \<Rightarrow> u64 list \<Rightarrow> byte list \<Rightarrow> byte list \<Rightarrow> byte list list" where
  "v2_frames event values loc rem =
     [le_bytes 8 event, le_bytes 8 (of_nat (length values) :: u64)] @ map (le_bytes 8) values @ [loc, rem]"

lemma read_values_frames:
  assumes "\<And>j. j < length vs \<Longrightarrow> recv (k + j) = Some (le_bytes 8 (vs ! j))"
  shows "read_values recv k (length vs) v0 = Inr (Some (last (v0 # vs)))"
  using assms
proof (induction vs arbitrary: k v0)
  case Nil
  then show ?case by simp
next
  case (Cons v vs)
  from Cons.prems [of 0] have "recv k = Some (le_bytes 8 v)" by simp
  moreover have "recv (Suc k + j) = Some (le_bytes 8 (vs ! j))" if "j < length vs" for j
    using Cons.prems [of "Suc j"] that by simp
  ultimately show ?case by (simp add: read_u64_image Cons.IH)
qed

end
