(* ===== verification/Peer.thy ===== *)
theory Peer
  imports Std_Map Params Monitor
begin

section \<open>The discovery peer, 3186/peer.cpp\<close>

text \<open>
  A peer binds \<^verbatim>\<open>dataPub\<close>, listens to the proxy on \<^verbatim>\<open>proxySub\<close> and, once welcomed, talks
  back on \<^verbatim>\<open>proxyPub\<close>; \<^verbatim>\<open>dataSub\<close> is connected to every peer it hears of. Its state between
  rounds of the main loop is the map \<^verbatim>\<open>peers\<close> from uuids to endpoints; \<open>self\<close> is what it
  fixed before the loop. The return codes of the calls are only logged.
\<close>

abbreviation dataPub :: handle where "dataPub \<equiv> Var ''dataPub''"
abbreviation proxyPub :: handle where "proxyPub \<equiv> Var ''proxyPub''"
abbreviation proxySub :: handle where "proxySub \<equiv> Var ''proxySub''"
abbreviation dataSub :: handle where "dataSub \<equiv> Var ''dataSub''"

record self =
  theUuid :: string
  pubEndpoint :: string

record peer_state =
  peers :: "(string, string) stdmap"

text \<open>
  What a round is given: the time \<^verbatim>\<open>time(NULL)\<close> reads, the readiness poll reports for the
  two sockets, the frame received from the proxy (\<open>None\<close> when the receive failed), and
  the memory of the structures on the stack before they are filled: of the disconnect
  message, of the repeated connect message, of the received one, and of the reply.
\<close>

record tick =
  now :: int
  proxy_ready :: bool
  data_ready :: bool
  proxy_frame :: "string option"
  mem_bye :: string
  mem_hello :: string
  mem_recv :: string
  mem_reply :: string

definition kickSocket :: "handle \<Rightarrow> string zcall list" where
  "kickSocket sock = [Getsockopt sock Events]"

definition kickSocket2 :: "handle \<Rightarrow> string zcall list" where
  "kickSocket2 sock = [Getsockopt sock Events]"

subsection \<open>Handling a message from the proxy\<close>

definition handle_welcome :: "connect_msg \<Rightarrow> peer_state \<Rightarrow> peer_state \<times> string zcall list \<times> bool" where
  "handle_welcome m st = (st, [Connect proxyPub (endpoint m)], False)"

definition handle_connect ::
  "self \<Rightarrow> string \<Rightarrow> connect_msg \<Rightarrow> peer_state \<Rightarrow> fault + peer_state \<times> string zcall list \<times> bool" where
  "handle_connect s mem m st =
     (if map_of (peers st) (uuid m) = None then
        bind_res (if_then (uuid m \<noteq> theUuid s)
                    (sendConnectMsg mem proxyPub CHR ''C'' (theUuid s) (pubEndpoint s))) (\<lambda>reply.
          Inr (st\<lparr>peers := sm_put (uuid m) (endpoint m) (peers st)\<rparr>,
               Connect dataSub (endpoint m) # reply, False))
      else Inr (st, [], False))"

definition handle_disconnect ::
  "params \<Rightarrow> self \<Rightarrow> connect_msg \<Rightarrow> peer_state \<Rightarrow> peer_state \<times> string zcall list \<times> bool" where
  "handle_disconnect p s m st =
     (if map_of (peers st) (uuid m) \<noteq> None then
        let st' = st\<lparr>peers := sm_erase (uuid m) (peers st)\<rparr>;
            acts = [Disconnect dataSub (endpoint m)]
              @ (if duplicateDisconnect p = 1 then [Disconnect dataSub (endpoint m)] else [])
              @ (if pollAfterDisconnect p = 1 then kickSocket dataPub else [])
        in if uuid m = theUuid s then (st', acts, True)
           else (st', acts @ (if sendAfterDisconnect p = 1 then [Send dataPub [] True] else []), False)
      else (st, [], False))"

definition handle_msg ::
  "params \<Rightarrow> self \<Rightarrow> string \<Rightarrow> connect_msg \<Rightarrow> peer_state \<Rightarrow> fault + peer_state \<times> string zcall list \<times> bool" where
  "handle_msg p s mem m st =
     (if command m = CHR ''W'' then Inr (handle_welcome m st)
      else if command m = CHR ''C'' then handle_connect s mem m st
      else if command m = CHR ''D'' then Inr (handle_disconnect p s m st)
      else Inr (st, [], False))"

definition received :: "tick \<Rightarrow> string" where
  "received t = (case proxy_frame t of None \<Rightarrow> mem_recv t | Some frame \<Rightarrow> fill_buf (mem_recv t) frame)"

definition handle_proxy ::
  "params \<Rightarrow> self \<Rightarrow> tick \<Rightarrow> peer_state \<Rightarrow> fault + peer_state \<times> string zcall list \<times> bool" where
  "handle_proxy p s t st =
     (if proxy_ready t then
        bind_res (read_connect_msg (received t)) (\<lambda>m.
        bind_res (handle_msg p s (mem_reply t) m st) (\<lambda>(st', acts, stop).
          Inr (st', Recv proxySub False # acts, stop)))
      else Inr (st, [], False))"

subsection \<open>The main loop\<close>

definition endTime :: "params \<Rightarrow> int \<Rightarrow> int" where
  "endTime p start = (if longLived p = 0 \<and> seconds p > 0 then start + seconds p else 0)"

definition expired :: "int \<Rightarrow> tick \<Rightarrow> bool" where
  "expired end t \<longleftrightarrow> end > 0 \<and> now t > end"

definition peer_iter ::
  "params \<Rightarrow> self \<Rightarrow> int \<Rightarrow> (tick, peer_state, string zcall, fault) iteration" where
  "peer_iter p s end t st =
     bind_res (if_then (expired end t)
                 (sendConnectMsg (mem_bye t) proxyPub CHR ''D'' (theUuid s) (pubEndpoint s))) (\<lambda>bye.
     if expired end t \<and> immediateExit p = 1 then Inr (st, bye, True)
     else
       bind_res (if_then (map_of (peers st) (theUuid s) = None)
                   (sendConnectMsg (mem_hello t) proxyPub CHR ''C'' (theUuid s) (pubEndpoint s))) (\<lambda>hello.
       bind_res (handle_proxy p s t st) (\<lambda>(st', acts, stop).
         Inr (st',
              bye @ [Poll [proxySub, dataSub] 1000]
              @ (if fix1256 p = 1 then kickSocket2 dataPub else []) @ hello @ acts
              @ (if \<not> stop \<and> data_ready t then [Recv dataSub False] else []),
              stop))))"

subsection \<open>Before and after the loop\<close>

text \<open>
  \<open>open_socket\<close> is the pattern by which each socket is made: its linger when it is to be
  set early, its monitor when sockets are monitored.
\<close>

definition open_socket :: "params \<Rightarrow> handle \<Rightarrow> kind \<Rightarrow> string \<Rightarrow> string zcall list" where
  "open_socket p h k addr =
     [Socket h k]
     @ (if earlyLinger p = 1 then [Setsockopt h (Linger (linger p))] else [])
     @ (if socketMonitor p = 1 then [Monitor h (Some addr)] else [])"

definition peer_setup :: "string returns \<Rightarrow> params \<Rightarrow> fault + string zcall list" where
  "peer_setup ret p = stmts
     [Inr [Ctx_New],
      if_then (socketMonitor p = 1) (startMonitor ret),
      Inr (open_socket p dataPub ZMQ_PUB ''inproc://dataPub''
           @ [Bind dataPub (''tcp://127.0.0.1:'' @ dec_of (port p)), Getsockopt dataPub Last_Endpoint]
           @ open_socket p proxyPub ZMQ_PUB ''inproc://proxyPub''
           @ open_socket p proxySub ZMQ_SUB ''inproc://proxySub''
           @ [Setsockopt proxySub (Subscribe []), Connect proxySub ''tcp://127.0.0.1:5555'']
           @ open_socket p dataSub ZMQ_SUB ''inproc://dataSub''
           @ (if disableReconnect p = 1 then [Setsockopt dataSub (Reconnect_Ivl (-1))] else [])
           @ [Setsockopt dataSub (Subscribe [])])]"

definition close_socket :: "string returns \<Rightarrow> params \<Rightarrow> handle \<Rightarrow> fault + string zcall list" where
  "close_socket ret p h = stmts
     [Inr (if earlyLinger p = 0 then [Setsockopt h (Linger (linger p))] else []),
      if_then (socketMonitor p = 1) (assert_zero ret (Monitor h None)),
      CALL_INT_FUNC (Close h)]"

text \<open>
  The shutdown ends with a pause when one was asked for, in microseconds: the product is an
  \<^verbatim>\<open>int\<close> in the code, which holds it for up to 2147 seconds.
\<close>

definition ONE_MILLION :: int where
  "ONE_MILLION = 1000000"

definition peer_shutdown :: "string returns \<Rightarrow> params \<Rightarrow> fault + string zcall list" where
  "peer_shutdown ret p = stmts
     [close_socket ret p dataPub,
      close_socket ret p dataSub,
      close_socket ret p proxyPub,
      close_socket ret p proxySub,
      if_then (socketMonitor p = 1) (stopMonitor ret),
      Inr (if sleepAtExit p > 0 then [Usleep (sleepAtExit p * ONE_MILLION)] else []),
      CALL_INT_FUNC Ctx_Shutdown,
      CALL_INT_FUNC Ctx_Term]"

text \<open>
  \<open>peer_main\<close>: the program on a list of inputs for its loop. The last component tells
  whether it ran to its end; otherwise it is still in the loop.
\<close>

definition peer_main ::
  "string returns \<Rightarrow> params \<Rightarrow> self \<Rightarrow> int \<Rightarrow> tick list \<Rightarrow> fault + peer_state \<times> string zcall list \<times> bool" where
  "peer_main ret p s start ticks =
     bind_res (peer_setup ret p) (\<lambda>opened.
     bind_res (run_loop (peer_iter p s (endTime p start)) ticks \<lparr>peers = []\<rparr>) (\<lambda>(st, acts, stopped).
       if stopped then
         bind_res (peer_shutdown ret p) (\<lambda>closed. Inr (st, opened @ acts @ closed, True))
       else Inr (st, opened @ acts, False)))"

section \<open>Facts about the peer\<close>

subsection \<open>Faults\<close>

definition tick_ok :: "tick \<Rightarrow> bool" where
  "tick_ok t \<longleftrightarrow>
     length (mem_bye t) = connect_msg_size \<and> length (mem_hello t) = connect_msg_size
     \<and> length (mem_reply t) = connect_msg_size
     \<and> (proxy_ready t \<longrightarrow> (\<exists>m. read_connect_msg (received t) = Inr m))"

definition self_ok :: "self \<Rightarrow> bool" where
  "self_ok s \<longleftrightarrow> sendable (theUuid s) (pubEndpoint s)"

text \<open>The message a round handles.\<close>

definition tick_msg :: "tick \<Rightarrow> connect_msg option" where
  "tick_msg t =
     (if proxy_ready t then (case read_connect_msg (received t) of Inl _ \<Rightarrow> None | Inr m \<Rightarrow> Some m)
      else None)"

definition announce :: "self \<Rightarrow> char \<Rightarrow> string \<Rightarrow> string zcall" where
  "announce s cmd mem =
     (case fill_connect_msg mem cmd (theUuid s) (pubEndpoint s) of
        Inl _ \<Rightarrow> Send proxyPub [] False | Inr bs \<Rightarrow> Send proxyPub bs False)"

lemma send_announce:
  assumes "self_ok s" "length mem = connect_msg_size"
  shows "sendConnectMsg mem proxyPub cmd (theUuid s) (pubEndpoint s) = Inr [announce s cmd mem]"
  using sendConnectMsg_ok [OF assms(2), of "theUuid s" "pubEndpoint s" proxyPub cmd] assms(1)
  by (auto simp: self_ok_def sendConnectMsg_def announce_def bind_res_Inr_iff)

lemma announce_reads:
  assumes "self_ok s" "length mem = connect_msg_size"
  shows "\<exists>bs. announce s cmd mem = Send proxyPub bs False
    \<and> read_connect_msg bs = Inr \<lparr>command = cmd, uuid = theUuid s, endpoint = pubEndpoint s\<rparr>"
  using sendConnectMsg_ok [OF assms(2), of "theUuid s" "pubEndpoint s" proxyPub cmd] assms
  by (auto simp: send_announce self_ok_def)

text \<open>One round in closed form, for inputs that cause no fault.\<close>

definition msg_step ::
  "params \<Rightarrow> self \<Rightarrow> tick \<Rightarrow> connect_msg \<Rightarrow> peer_state \<Rightarrow> peer_state \<times> string zcall list \<times> bool" where
  "msg_step p s t m st =
     (if command m = CHR ''W'' then handle_welcome m st
      else if command m = CHR ''C'' then
        (if map_of (peers st) (uuid m) = None then
           (st\<lparr>peers := sm_put (uuid m) (endpoint m) (peers st)\<rparr>,
            Connect dataSub (endpoint m)
              # (if uuid m \<noteq> theUuid s then [announce s CHR ''C'' (mem_reply t)] else []), False)
         else (st, [], False))
      else if command m = CHR ''D'' then handle_disconnect p s m st
      else (st, [], False))"

lemma handle_msg_ok:
  assumes "self_ok s" "tick_ok t"
  shows "handle_msg p s (mem_reply t) m st = Inr (msg_step p s t m st)"
  using assms by (simp add: handle_msg_def msg_step_def handle_connect_def if_then_def tick_ok_def send_announce)

lemma handle_proxy_ok:
  assumes "self_ok s" "tick_ok t"
  shows "handle_proxy p s t st =
    Inr (case tick_msg t of
           None \<Rightarrow> (st, [], False)
         | Some m \<Rightarrow> (case msg_step p s t m st of (st', acts, stop) \<Rightarrow> (st', Recv proxySub False # acts, stop)))"
  using assms
  by (auto simp: handle_proxy_def tick_msg_def handle_msg_ok tick_ok_def bind_res_def split: sum.splits prod.splits)

definition round_acts ::
  "params \<Rightarrow> self \<Rightarrow> int \<Rightarrow> tick \<Rightarrow> peer_state \<Rightarrow> string zcall list \<Rightarrow> bool \<Rightarrow> string zcall list" where
  "round_acts p s end t st acts stop =
     (if expired end t then [announce s CHR ''D'' (mem_bye t)] else [])
     @ [Poll [proxySub, dataSub] 1000]
     @ (if fix1256 p = 1 then kickSocket2 dataPub else [])
     @ (if map_of (peers st) (theUuid s) = None then [announce s CHR ''C'' (mem_hello t)] else [])
     @ acts @ (if \<not> stop \<and> data_ready t then [Recv dataSub False] else [])"

lemma peer_iter_ok:
  assumes "self_ok s" "tick_ok t"
  shows "peer_iter p s end t st =
    Inr (if expired end t \<and> immediateExit p = 1 then (st, [announce s CHR ''D'' (mem_bye t)], True)
         else (case tick_msg t of
                 None \<Rightarrow> (st, round_acts p s end t st [] False, False)
               | Some m \<Rightarrow> (case msg_step p s t m st of
                    (st', acts, stop) \<Rightarrow>
                      (st', round_acts p s end t st (Recv proxySub False # acts) stop, stop))))"
proof -
  have len: "length (mem_bye t) = connect_msg_size" "length (mem_hello t) = connect_msg_size"
    using assms(2) by (auto simp: tick_ok_def)
  show ?thesis
    using assms len
    by (auto simp: peer_iter_def if_then_def send_announce handle_proxy_ok round_acts_def
        split: option.splits prod.splits)
qed

subsection \<open>Membership\<close>

text \<open>
  The abstract peer keeps a partial map from uuids to endpoints and obeys the messages: a
  first connect message enters its sender, a disconnect message removes it.
\<close>

definition member_step :: "connect_msg \<Rightarrow> (string \<rightharpoonup> string) \<Rightarrow> (string \<rightharpoonup> string)" where
  "member_step m mem =
     (if command m = CHR ''C'' then (if mem (uuid m) = None then mem(uuid m \<mapsto> endpoint m) else mem)
      else if command m = CHR ''D'' then mem(uuid m := None)
      else mem)"

lemma msg_step_members:
  assumes "sm_wf (peers st)" "msg_step p s t m st = (st', acts, stop)"
  shows "sm_wf (peers st') \<and> map_of (peers st') = member_step m (map_of (peers st))"
  using assms
  by (auto simp: msg_step_def handle_welcome_def handle_disconnect_def member_step_def Let_def
      sm_laws fun_eq_iff split: if_splits)

definition tick_members :: "tick \<Rightarrow> (string \<rightharpoonup> string) \<Rightarrow> (string \<rightharpoonup> string)" where
  "tick_members t = (case tick_msg t of None \<Rightarrow> id | Some m \<Rightarrow> member_step m)"

lemma peer_iter_members:
  assumes "self_ok s" "tick_ok t" "sm_wf (peers st)" "peer_iter p s end t st = Inr (st', acts, stop)"
  shows "sm_wf (peers st')
    \<and> map_of (peers st') = (if expired end t \<and> immediateExit p = 1 then map_of (peers st)
                            else tick_members t (map_of (peers st)))"
  using assms msg_step_members
  by (auto simp: peer_iter_ok tick_members_def split: option.splits if_splits prod.splits)

interpretation peer_loop: safe_loop "peer_iter p s end" "\<lambda>t. self_ok s \<and> tick_ok t" "\<lambda>st. sm_wf (peers st)"
proof unfold_locales
  show "sm_wf (peers st')"
    if "sm_wf (peers st)" "self_ok s \<and> tick_ok t" "peer_iter p s end t st = Inr (st', acts, stop)"
    for st t st' acts stop
    using peer_iter_members [of s t st p "end" st' acts stop] that by blast
  show "\<exists>r. peer_iter p s end t st = Inr r" if "self_ok s \<and> tick_ok t" for t and st :: peer_state
    using that by (blast intro: peer_iter_ok)
qed

lemma peer_run_members:
  assumes "self_ok s" "list_all tick_ok ts" "sm_wf (peers st)"
    and "run_loop (peer_iter p s end) ts st = Inr (st', acts, False)"
  shows "map_of (peers st') = fold tick_members ts (map_of (peers st))"
  using assms(2-)
proof (induction ts arbitrary: st acts)
  case Nil
  then show ?case by simp
next
  case (Cons t ts)
  from Cons.prems(3) obtain st1 as bs where
    it: "peer_iter p s end t st = Inr (st1, as, False)" and
    rest: "run_loop (peer_iter p s end) ts st1 = Inr (st', bs, False)"
    by (auto simp: bind_res_Inr_iff split: if_splits)
  have tk: "tick_ok t" and oks: "list_all tick_ok ts" using Cons.prems(1) by auto
  have "\<not> (expired end t \<and> immediateExit p = 1)"
    using it by (auto simp: peer_iter_ok [OF assms(1) tk])
  with peer_iter_members [OF assms(1) tk Cons.prems(2) it]
  have "sm_wf (peers st1)" "map_of (peers st1) = tick_members t (map_of (peers st))" by auto
  with Cons.IH [OF oks _ rest] show ?case by simp
qed

text \<open>Who is known after a series of messages: those whose last word was a connect.\<close>

definition last_word :: "connect_msg list \<Rightarrow> string \<Rightarrow> bool" where
  "last_word ms u =
     (case filter (\<lambda>m. uuid m = u \<and> command m \<in> {CHR ''C'', CHR ''D''}) ms of
        [] \<Rightarrow> False
      | x # xs \<Rightarrow> command (last (x # xs)) = CHR ''C'')"

lemma dom_member_step:
  "u \<in> dom (member_step m mem) \<longleftrightarrow>
     (if uuid m = u \<and> command m \<in> {CHR ''C'', CHR ''D''} then command m = CHR ''C'' else u \<in> dom mem)"
  by (auto simp: member_step_def domIff)

lemma dom_fold_member_step: "u \<in> dom (fold member_step ms Map.empty) \<longleftrightarrow> last_word ms u"
proof (induction ms rule: rev_induct)
  case Nil
  then show ?case by (simp add: last_word_def)
next
  case (snoc m ms)
  have "last_word (ms @ [m]) u \<longleftrightarrow>
    (if uuid m = u \<and> command m \<in> {CHR ''C'', CHR ''D''} then command m = CHR ''C'' else last_word ms u)"
    by (auto simp: last_word_def split: list.splits)
  with snoc show ?case
    using dom_member_step [of u m "fold member_step ms Map.empty"] by auto
qed

lemma fold_tick_members: "fold tick_members ts mem = fold member_step (List.map_filter tick_msg ts) mem"
  by (induction ts arbitrary: mem) (auto simp: tick_members_def List.map_filter_simps split: option.splits)

subsection \<open>Connections\<close>

text \<open>
  \<open>ep u\<close> is the endpoint the peer with uuid \<open>u\<close> publishes. When the messages tell the
  truth about it, \<^verbatim>\<open>dataSub\<close> is connected to exactly the endpoints of the peers in the map,
  once to each.
\<close>

definition truthful :: "(string \<Rightarrow> string) \<Rightarrow> connect_msg \<Rightarrow> bool" where
  "truthful ep m \<longleftrightarrow> (command m \<in> {CHR ''C'', CHR ''D''} \<longrightarrow> endpoint m = ep (uuid m))"

definition tick_truthful :: "(string \<Rightarrow> string) \<Rightarrow> tick \<Rightarrow> bool" where
  "tick_truthful ep t \<longleftrightarrow> (case tick_msg t of None \<Rightarrow> True | Some m \<Rightarrow> truthful ep m)"

definition linked :: "(string \<Rightarrow> string) \<Rightarrow> string zcall list \<Rightarrow> peer_state \<Rightarrow> bool" where
  "linked ep h st \<longleftrightarrow> sm_wf (peers st) \<and> distinct (links dataSub h)
     \<and> set (links dataSub h) = ep ` dom (map_of (peers st))
     \<and> (\<forall>u e. map_of (peers st) u = Some e \<longrightarrow> e = ep u)"

lemma link_step_announce [simp]: "link_step h (announce s cmd mem) l = l"
  by (simp add: announce_def split: sum.splits)

lemma sends_on_announce [simp]:
  "sends_on h (announce s cmd mem # cs) = (if h = proxyPub then [announce s cmd mem] else []) @ sends_on h cs"
  by (auto simp: announce_def split: sum.splits)

lemma linked_put:
  assumes "linked ep h st" "inj ep" "map_of (peers st) u = None"
  shows "linked ep (h @ [Connect dataSub (ep u)]) (st\<lparr>peers := sm_put u (ep u) (peers st)\<rparr>)"
proof -
  have "ep u \<notin> set (links dataSub h)"
    using assms by (auto simp: linked_def inj_image_mem_iff domIff)
  moreover have "dom (map_of (sm_put u (ep u) (peers st))) = insert u (dom (map_of (peers st)))"
    using assms(1) by (auto simp: linked_def sm_laws domIff split: if_splits)
  ultimately show ?thesis
    using assms by (simp add: linked_def links_append sm_laws)
qed

lemma linked_erase:
  assumes "linked ep h st" "inj ep" "map_of (peers st) u \<noteq> None"
  shows "linked ep (h @ [Disconnect dataSub (ep u)]) (st\<lparr>peers := sm_erase u (peers st)\<rparr>)"
proof -
  have dom: "dom (map_of (sm_erase u (peers st))) = dom (map_of (peers st)) - {u}"
    using assms(1) by (auto simp: linked_def sm_laws domIff split: if_splits)
  have "ep ` (dom (map_of (peers st)) - {u}) = ep ` dom (map_of (peers st)) - {ep u}"
    using assms(2) by (simp add: image_set_diff)
  with assms dom show ?thesis
    by (auto simp: linked_def links_append sm_laws split: if_splits)
qed

lemma linked_other:
  "linked ep h st \<Longrightarrow> \<forall>c \<in> set cs. link_step dataSub c = id \<Longrightarrow> linked ep (h @ cs) st"
proof (induction cs arbitrary: h)
  case Nil
  then show ?case by simp
next
  case (Cons c cs)
  then have "linked ep (h @ [c]) st" by (simp add: linked_def links_append)
  with Cons show ?case by force
qed

lemma linked_again:
  assumes "linked ep h st" "inj ep" "map_of (peers st) u = None"
  shows "linked ep (h @ [Disconnect dataSub (ep u)]) st"
proof -
  have "ep u \<notin> set (links dataSub h)"
    using assms by (auto simp: linked_def inj_image_mem_iff domIff)
  with assms(1) show ?thesis by (simp add: linked_def links_append remove1_idem)
qed

lemma no_link [simp]:
  "link_step h (Poll hs t) = id" "link_step h (Recv h' b) = id" "link_step h (Send h' m b) = id"
  "link_step h (Getsockopt h' opt) = id" "link_step dataSub (Connect proxyPub e) = id"
  "link_step h (announce s cmd mem) = id"
  by (simp_all add: fun_eq_iff)

lemma linked_disconnect:
  assumes "linked ep h st" "inj ep" "endpoint m = ep (uuid m)"
    and "handle_disconnect p s m st = (st', acts, stop)"
  shows "linked ep (h @ acts) st'"
proof (cases "map_of (peers st) (uuid m) = None")
  case True
  with assms show ?thesis by (simp add: handle_disconnect_def)
next
  case False
  let ?st = "st\<lparr>peers := sm_erase (uuid m) (peers st)\<rparr>"
  let ?h1 = "h @ [Disconnect dataSub (endpoint m)]"
  let ?h2 = "?h1 @ (if duplicateDisconnect p = 1 then [Disconnect dataSub (endpoint m)] else [])"
  from linked_erase [OF assms(1,2) False] assms(3) have l1: "linked ep ?h1 ?st" by simp
  have "map_of (peers ?st) (uuid m) = None"
    using assms(1) by (simp add: linked_def sm_laws)
  from linked_again [OF l1 assms(2) this] l1 assms(3) have l2: "linked ep ?h2 ?st" by simp
  define rest where "rest = (if pollAfterDisconnect p = 1 then kickSocket dataPub else [])
    @ (if uuid m \<noteq> theUuid s \<and> sendAfterDisconnect p = 1 then [Send dataPub [] True] else [])"
  have "\<forall>c \<in> set rest. link_step dataSub c = id" by (auto simp: rest_def kickSocket_def)
  from linked_other [OF l2 this] have "linked ep (?h2 @ rest) ?st" .
  moreover from assms(4) False have "st' = ?st" "h @ acts = ?h2 @ rest"
    by (auto simp: handle_disconnect_def rest_def Let_def split: if_splits)
  ultimately show ?thesis by simp
qed

lemma linked_msg:
  assumes "linked ep h st" "inj ep" "truthful ep m" "msg_step p s t m st = (st', acts, stop)"
  shows "linked ep (h @ acts) st'"
proof -
  consider (W) "command m = CHR ''W''" | (C) "command m = CHR ''C''" | (D) "command m = CHR ''D''"
    | (X) "command m \<notin> {CHR ''W'', CHR ''C'', CHR ''D''}" by blast
  then show ?thesis
  proof cases
    case W
    with assms show ?thesis
      using linked_other [OF assms(1), of "[Connect proxyPub (endpoint m)]"]
      by (auto simp: msg_step_def handle_welcome_def)
  next
    case C
    with assms(3) have ep: "endpoint m = ep (uuid m)" by (simp add: truthful_def)
    show ?thesis
    proof (cases "map_of (peers st) (uuid m) = None")
      case True
      let ?reply = "if uuid m \<noteq> theUuid s then [announce s CHR ''C'' (mem_reply t)] else []"
      from linked_put [OF assms(1,2) True]
      have "linked ep ((h @ [Connect dataSub (ep (uuid m))]) @ ?reply)
        (st\<lparr>peers := sm_put (uuid m) (ep (uuid m)) (peers st)\<rparr>)"
        by (rule linked_other) simp
      with C True ep assms(4) show ?thesis by (auto simp: msg_step_def)
    next
      case False
      with C assms show ?thesis by (auto simp: msg_step_def)
    qed
  next
    case D
    with assms show ?thesis
      by (intro linked_disconnect [OF assms(1,2)]) (auto simp: msg_step_def truthful_def)
  next
    case X
    with assms show ?thesis by (auto simp: msg_step_def)
  qed
qed

lemma round_acts_linked:
  assumes "linked ep h st" "\<And>h. linked ep h st \<Longrightarrow> linked ep (h @ acts) st'"
  shows "linked ep (h @ round_acts p s end t st acts stop) st'"
proof -
  define pre where "pre = (if expired end t then [announce s CHR ''D'' (mem_bye t)] else [])
     @ [Poll [proxySub, dataSub] 1000]
     @ (if fix1256 p = 1 then kickSocket2 dataPub else [])
     @ (if map_of (peers st) (theUuid s) = None then [announce s CHR ''C'' (mem_hello t)] else [])"
  define post :: "string zcall list" where "post = (if \<not> stop \<and> data_ready t then [Recv dataSub False] else [])"
  have "\<forall>c \<in> set pre. link_step dataSub c = id"
    by (auto simp: pre_def kickSocket2_def)
  from linked_other [OF assms(1) this] assms(2) have "linked ep ((h @ pre) @ acts) st'" by blast
  moreover have "\<forall>c \<in> set post. link_step dataSub c = id" by (simp add: post_def)
  ultimately have "linked ep (((h @ pre) @ acts) @ post) st'" by (rule linked_other)
  then show ?thesis by (simp add: round_acts_def pre_def post_def)
qed

interpretation peer_links: traced_loop "peer_iter p s end"
  "\<lambda>t. self_ok s \<and> tick_ok t \<and> inj ep \<and> tick_truthful ep t" "linked ep"
proof unfold_locales
  fix h st t st' acts stop
  assume l: "linked ep h st" and adm: "self_ok s \<and> tick_ok t \<and> inj ep \<and> tick_truthful ep t"
    and it: "peer_iter p s end t st = Inr (st', acts, stop)"
  show "linked ep (h @ acts) st'"
  proof (cases "expired end t \<and> immediateExit p = 1")
    case True
    with it adm l show ?thesis
      using linked_other [OF l, of "[announce s CHR ''D'' (mem_bye t)]"]
      by (auto simp: peer_iter_ok)
  next
    case False
    show ?thesis
    proof (cases "tick_msg t")
      case None
      with it adm False have "st' = st" "acts = round_acts p s end t st [] False"
        by (auto simp: peer_iter_ok)
      with round_acts_linked [OF l, of "[]" st] l show ?thesis by simp
    next
      case (Some m)
      obtain st1 as b where ms: "msg_step p s t m st = (st1, as, b)" by (cases "msg_step p s t m st")
      with it adm False Some have st: "st' = st1"
        "acts = round_acts p s end t st (Recv proxySub False # as) b"
        by (auto simp: peer_iter_ok)
      have tr: "truthful ep m" using adm Some by (simp add: tick_truthful_def)
      have "linked ep (h' @ Recv proxySub False # as) st1" if "linked ep h' st" for h'
      proof -
        from linked_other [OF that, of "[Recv proxySub False]"]
        have "linked ep (h' @ [Recv proxySub False]) st" by simp
        from linked_msg [OF this _ tr ms] adm show ?thesis by simp
      qed
      with round_acts_linked [OF l] st l show ?thesis by blast
    qed
  qed
qed

end
