(* ===== verification/Peer_Properties.thy ===== *)
theory Peer_Properties
  imports Peer
begin

section \<open>Properties of the discovery peer\<close>

text \<open>
  What 3186/peer.cpp guarantees over whole runs: no fault on admissible inputs, the
  membership and the connections it ends with, the messages it sends, when it leaves its
  loop, and that it releases every socket before it ends the context.
\<close>

abbreviation no_peers :: peer_state where "no_peers \<equiv> \<lparr>peers = []\<rparr>"

text \<open>Concrete inputs used by the witnesses: a peer, a stack of zeros, and the ticks that deliver a message.\<close>

definition peer_a :: self where
  "peer_a = \<lparr>theUuid = ''a'', pubEndpoint = ''tcp://1''\<rparr>"

definition zeros :: string where
  "zeros = replicate connect_msg_size NUL"

definition quiet_tick :: "int \<Rightarrow> tick" where
  "quiet_tick n = \<lparr>now = n, proxy_ready = False, data_ready = False, proxy_frame = None,
     mem_bye = zeros, mem_hello = zeros, mem_recv = zeros, mem_reply = zeros\<rparr>"

definition tick_of :: "connect_msg \<Rightarrow> tick" where
  "tick_of m = (quiet_tick 0)\<lparr>proxy_ready := True, proxy_frame := Some (connect_msg_image zeros m)\<rparr>"

definition msg_a :: "char \<Rightarrow> connect_msg" where
  "msg_a cmd = \<lparr>command = cmd, uuid = ''a'', endpoint = ''tcp://1''\<rparr>"

definition msg_b :: "char \<Rightarrow> connect_msg" where
  "msg_b cmd = \<lparr>command = cmd, uuid = ''b'', endpoint = ''tcp://2''\<rparr>"

lemma length_zeros [simp]: "length zeros = connect_msg_size"
  by (simp add: zeros_def)

lemma self_ok_peer_a [simp]: "self_ok peer_a"
  by (simp add: self_ok_def peer_a_def sendable_def layout_defs)

lemma sendable_msgs [simp]: "sendable_msg (msg_a c)" "sendable_msg (msg_b c)"
  by (simp_all add: sendable_msg_def msg_a_def msg_b_def sendable_def layout_defs)

lemma quiet_tick_ok [simp]: "tick_ok (quiet_tick n)" "tick_msg (quiet_tick n) = None"
  by (simp_all add: tick_ok_def quiet_tick_def tick_msg_def)

lemma tick_now [simp]:
  "received (t\<lparr>now := n\<rparr>) = received t" "tick_ok (t\<lparr>now := n\<rparr>) = tick_ok t"
  "tick_msg (t\<lparr>now := n\<rparr>) = tick_msg t"
proof -
  show r: "received (t\<lparr>now := n\<rparr>) = received t" by (simp add: received_def split: option.split)
  show "tick_ok (t\<lparr>now := n\<rparr>) = tick_ok t" "tick_msg (t\<lparr>now := n\<rparr>) = tick_msg t"
    by (simp_all add: tick_ok_def tick_msg_def r)
qed

lemma tick_of_received:
  assumes "sendable_msg m"
  shows "read_connect_msg (received (tick_of m)) = Inr m"
  using connect_wire.dec_received [OF assms, of zeros]
  by (simp add: received_def tick_of_def quiet_tick_def zeros_def)

lemma tick_of_ok:
  "sendable_msg m \<Longrightarrow> tick_ok (tick_of m)" "sendable_msg m \<Longrightarrow> tick_msg (tick_of m) = Some m"
  using tick_of_received [of m] by (simp_all add: tick_ok_def tick_msg_def) (simp_all add: tick_of_def quiet_tick_def)

subsection \<open>Runs from the start\<close>

lemma start_wf [simp]: "sm_wf (peers no_peers)"
  by (simp add: sm_laws)


lemma peer_loop_adm: "self_ok s \<Longrightarrow> list_all tick_ok ts \<Longrightarrow> list_all (\<lambda>t. self_ok s \<and> tick_ok t) ts"
  by (simp add: list_all_iff)

text \<open>When a round is the last one.\<close>

definition last_round :: "params \<Rightarrow> self \<Rightarrow> int \<Rightarrow> tick \<Rightarrow> bool \<Rightarrow> bool" where
  "last_round p s end t known \<longleftrightarrow>
     expired end t \<and> immediateExit p = 1
     \<or> known \<and> (\<exists>m. tick_msg t = Some m \<and> command m = CHR ''D'' \<and> uuid m = theUuid s)"

lemma msg_step_stop:
  "msg_step p s t m st = (st', acts, stop) \<Longrightarrow>
     stop \<longleftrightarrow> command m = CHR ''D'' \<and> uuid m = theUuid s \<and> theUuid s \<in> dom (map_of (peers st))"
  by (auto simp: msg_step_def handle_welcome_def handle_disconnect_def Let_def split: if_splits)

lemma peer_iter_stop:
  assumes "self_ok s" "tick_ok t" "peer_iter p s end t st = Inr (st', acts, stop)"
  shows "stop \<longleftrightarrow> last_round p s end t (theUuid s \<in> dom (map_of (peers st)))"
  using assms(3)
  by (auto simp: peer_iter_ok [OF assms(1,2)] last_round_def dest: msg_step_stop
      split: option.splits if_splits prod.splits)

lemma peer_known:
  assumes "self_ok s" "list_all tick_ok ts"
    and "run_loop (peer_iter p s end) ts no_peers = Inr (st', acts, False)"
  shows "map_of (peers st') = fold member_step (List.map_filter tick_msg ts) Map.empty"
    and "u \<in> dom (map_of (peers st')) \<longleftrightarrow> last_word (List.map_filter tick_msg ts) u"
proof -
  show eq: "map_of (peers st') = fold member_step (List.map_filter tick_msg ts) Map.empty"
    using peer_run_members [OF assms(1,2) start_wf assms(3)] by (simp add: fold_tick_members)
  show "u \<in> dom (map_of (peers st')) \<longleftrightarrow> last_word (List.map_filter tick_msg ts) u"
    by (simp only: eq dom_fold_member_step)
qed

text \<open>The commands a round announces, in order.\<close>

definition round_commands :: "params \<Rightarrow> self \<Rightarrow> int \<Rightarrow> tick \<Rightarrow> (string \<rightharpoonup> string) \<Rightarrow> string" where
  "round_commands p s end t known =
     (if expired end t then ''D'' else [])
     @ (if expired end t \<and> immediateExit p = 1 then []
        else (if known (theUuid s) = None then ''C'' else [])
          @ (case tick_msg t of None \<Rightarrow> []
             | Some m \<Rightarrow> if command m = CHR ''C'' \<and> known (uuid m) = None \<and> uuid m \<noteq> theUuid s
                         then ''C'' else []))"

definition reads :: "string zcall \<Rightarrow> fault + connect_msg" where
  "reads c = (case c of Send h bs nowait \<Rightarrow> read_connect_msg bs | _ \<Rightarrow> Inl Null_Deref)"

lemma reads_announce:
  "self_ok s \<Longrightarrow> length mem = connect_msg_size \<Longrightarrow>
     reads (announce s cmd mem) = Inr \<lparr>command = cmd, uuid = theUuid s, endpoint = pubEndpoint s\<rparr>"
  using announce_reads [of s mem cmd] by (auto simp: reads_def)

lemma sends_round:
  "sends_on proxyPub (round_acts p s end t st acts stop) =
     (if expired end t then [announce s CHR ''D'' (mem_bye t)] else [])
     @ (if map_of (peers st) (theUuid s) = None then [announce s CHR ''C'' (mem_hello t)] else [])
     @ sends_on proxyPub acts"
  by (simp add: round_acts_def kickSocket2_def)

lemma sends_msg_step:
  "msg_step p s t m st = (st', acts, stop) \<Longrightarrow>
     sends_on proxyPub acts =
       (if command m = CHR ''C'' \<and> map_of (peers st) (uuid m) = None \<and> uuid m \<noteq> theUuid s
        then [announce s CHR ''C'' (mem_reply t)] else [])"
  by (auto simp: msg_step_def handle_welcome_def handle_disconnect_def kickSocket_def Let_def split: if_splits)

lemma peer_iter_commands:
  assumes "self_ok s" "tick_ok t" "peer_iter p s end t st = Inr (st', acts, stop)"
  shows "map reads (sends_on proxyPub acts) =
    map (\<lambda>cmd. Inr \<lparr>command = cmd, uuid = theUuid s, endpoint = pubEndpoint s\<rparr>)
      (round_commands p s end t (map_of (peers st)))"
proof -
  have len: "length (mem_bye t) = connect_msg_size" "length (mem_hello t) = connect_msg_size"
    "length (mem_reply t) = connect_msg_size"
    using assms(2) by (auto simp: tick_ok_def)
  show ?thesis
    using assms(3) len assms(1)
    by (auto simp: peer_iter_ok [OF assms(1,2)] round_commands_def sends_round reads_announce
        sends_msg_step split: option.splits if_splits prod.splits)
qed

subsection \<open>The sockets over a whole run\<close>

definition peer_sockets :: "handle list" where
  "peer_sockets = [dataPub, proxyPub, proxySub, dataSub]"

definition loop_call :: "string zcall \<Rightarrow> bool" where
  "loop_call c \<longleftrightarrow> neutral c \<and> \<not> sets_linger c \<and> set (uses c) \<subseteq> set peer_sockets"

lemma loop_call_simps [simp]:
  "loop_call (announce s cmd mem)" "loop_call (Poll [proxySub, dataSub] n)"
  "loop_call (Recv proxySub b)" "loop_call (Recv dataSub b)" "loop_call (Getsockopt dataPub opt)"
  "loop_call (Connect proxyPub e)" "loop_call (Connect dataSub e)" "loop_call (Disconnect dataSub e)"
  "loop_call (Send dataPub bs b)"
  by (auto simp: loop_call_def peer_sockets_def announce_def split: sum.splits)

lemma msg_step_calls: "msg_step p s t m st = (st', acts, stop) \<Longrightarrow> list_all loop_call acts"
  by (auto simp: msg_step_def handle_welcome_def handle_disconnect_def kickSocket_def Let_def split: if_splits)

lemma round_acts_calls: "list_all loop_call acts \<Longrightarrow> list_all loop_call (round_acts p s end t st acts stop)"
  by (simp add: round_acts_def kickSocket2_def)

interpretation peer_calls: traced_loop "peer_iter p s end" "\<lambda>t. self_ok s \<and> tick_ok t"
  "\<lambda>h (_ :: peer_state). list_all loop_call h"
proof unfold_locales
  fix h st t st' acts stop
  assume "list_all loop_call h" "self_ok s \<and> tick_ok t" "peer_iter p s end t st = Inr (st', acts, stop)"
  then show "list_all loop_call (h @ acts)"
    by (auto simp: peer_iter_ok round_acts_calls dest: msg_step_calls split: option.splits if_splits prod.splits)
qed

lemma setup_succeeds:
  assumes "all_succeed length ret"
  shows "\<exists>cs. peer_setup ret p = Inr cs
    \<and> track cs [] = Some ([dataSub, proxySub, proxyPub, dataPub]
        @ (if socketMonitor p = 1 then [monitorPub, monitorSub] else []))"
  by (cases "socketMonitor p = 1"; cases "earlyLinger p = 1"; cases "disableReconnect p = 1")
    (simp_all add: peer_setup_def startMonitor_def open_socket_def if_then_def assert_succeeds [OF assms])

lemma shutdown_succeeds:
  assumes "all_succeed length ret"
  shows "\<exists>cs. peer_shutdown ret p = Inr cs
    \<and> track cs ([dataSub, proxySub, proxyPub, dataPub]
        @ (if socketMonitor p = 1 then [monitorPub, monitorSub] else [])) = Some []"
proof -
  have send: "assert_that (ret (Send h ''X'' b) = 1) c = Inr [c]" for h b c
    using all_succeedD(3) [OF assms, of h "''X''" b] by (simp add: assert_that_def)
  show ?thesis
    by (cases "socketMonitor p = 1"; cases "earlyLinger p = 0"; cases "sleepAtExit p > 0")
      (simp_all add: peer_shutdown_def stopMonitor_def close_socket_def if_then_def CALL_INT_FUNC_def
        assert_succeeds [OF assms] send)
qed

lemma loop_calls_track:
  assumes "list_all loop_call cs" "set peer_sockets \<subseteq> set hs"
  shows "track cs hs = Some hs"
  using assms by (intro track_neutral) (auto simp: list_all_iff loop_call_def)

lemma peer_run_calls:
  assumes "self_ok s" "list_all tick_ok ts" "run_loop (peer_iter p s end) ts no_peers = Inr (st, acts, stop)"
  shows "list_all loop_call acts"
  using peer_calls.good_run [OF _ peer_loop_adm [OF assms(1,2)] assms(3), of "[]"] by simp







lemma peer_main_parts:
  assumes "peer_main ret p s start ts = Inr (st, trace, True)"
  obtains opened acts closed where
    "peer_setup ret p = Inr opened" "peer_shutdown ret p = Inr closed"
    "run_loop (peer_iter p s (endTime p start)) ts no_peers = Inr (st, acts, True)"
    "trace = opened @ acts @ closed"
  using assms that by (auto simp: peer_main_def bind_res_Inr_iff split: if_splits)

section \<open>The properties\<close>

text \<open>A run used by the witnesses: the peer hears itself, hears \<open>b\<close>, and leaves on its own disconnect.\<close>

definition demo :: "tick list" where
  "demo = [tick_of (msg_a CHR ''C''), quiet_tick 1, tick_of (msg_b CHR ''C'')]"

lemma demo_ok: "list_all tick_ok demo" "list_all tick_ok (demo @ [tick_of (msg_a CHR ''D'')])"
  by (simp_all add: demo_def tick_of_ok)

lemma demo_msgs: "List.map_filter tick_msg demo = [msg_a CHR ''C'', msg_b CHR ''C'']"
  by (simp add: demo_def List.map_filter_simps tick_of_ok)

lemma demo_runs:
  "\<exists>st acts. run_loop (peer_iter params_init peer_a 0) demo no_peers = Inr (st, acts, False)"
proof -
  have "case run_loop (peer_iter params_init peer_a 0) demo no_peers of
      Inr (st, acts, stop) \<Rightarrow> \<not> stop | Inl f \<Rightarrow> False"
    by code_simp
  then show ?thesis by (auto split: sum.splits)
qed



text \<open>
  C1. Membership. As long as the loop runs, the map of peers is what the messages received
  make of the abstract membership, entry by entry, and a peer is known exactly if its last
  connect or disconnect message was a connect.
\<close>

theorem peer_membership:
  assumes "self_ok s" "list_all tick_ok ts"
    and "run_loop (peer_iter p s end) ts no_peers = Inr (st, acts, False)"
  shows "map_of (peers st) = fold member_step (List.map_filter tick_msg ts) Map.empty
    \<and> (\<forall>u. map_of (peers st) u \<noteq> None \<longleftrightarrow> last_word (List.map_filter tick_msg ts) u)"
  using peer_known [OF assms] by (auto simp: domIff)

theorem peer_membership_witness:
  "\<exists>st acts. run_loop (peer_iter params_init peer_a 0) demo no_peers = Inr (st, acts, False)
     \<and> map_of (peers st) = [''a'' \<mapsto> ''tcp://1'', ''b'' \<mapsto> ''tcp://2'']"
proof -
  obtain st acts where run: "run_loop (peer_iter params_init peer_a 0) demo no_peers = Inr (st, acts, False)"
    using demo_runs by blast
  from peer_membership [OF self_ok_peer_a demo_ok(1) run] run show ?thesis
    by (auto simp: demo_msgs member_step_def msg_a_def msg_b_def)
qed




text \<open>
  C9. Exit. The loop ends exactly if some round is the last one: its time is up and it was
  told to exit immediately, or it receives its own disconnect message while it knows
  itself, that is, while its own last word was a connect. A disconnect of another peer, or
  its own before it ever heard itself, never ends it.
\<close>

theorem peer_exit:
  assumes "self_ok s" "list_all tick_ok ts"
    and "run_loop (peer_iter p s end) ts no_peers = Inr (st, acts, stopped)"
  shows "stopped \<longleftrightarrow>
    (\<exists>xs t ys. ts = xs @ t # ys
       \<and> last_round p s end t (last_word (List.map_filter tick_msg xs) (theUuid s)))"
proof
  assume stopped
  with assms(3) have "run_loop (peer_iter p s end) ts no_peers = Inr (st, acts, True)" by simp
  then obtain xs t ys s1 bs cs where ts: "ts = xs @ t # ys"
    and xs: "run_loop (peer_iter p s end) xs no_peers = Inr (s1, bs, False)"
    and it: "peer_iter p s end t s1 = Inr (st, cs, True)"
    by (blast dest: run_loop_stopD)
  from ts assms(2) have oks: "list_all tick_ok xs" "tick_ok t" by auto
  from peer_iter_stop [OF assms(1) oks(2) it] peer_known(2) [OF assms(1) oks(1) xs] ts
  show "\<exists>xs t ys. ts = xs @ t # ys
      \<and> last_round p s end t (last_word (List.map_filter tick_msg xs) (theUuid s))" by auto
next
  assume "\<exists>xs t ys. ts = xs @ t # ys
    \<and> last_round p s end t (last_word (List.map_filter tick_msg xs) (theUuid s))"
  then obtain xs t ys where ts: "ts = xs @ t # ys"
    and last: "last_round p s end t (last_word (List.map_filter tick_msg xs) (theUuid s))" by blast
  from ts assms(2) have oks: "list_all tick_ok xs" "tick_ok t" by auto
  show stopped
  proof (rule ccontr)
    assume "\<not> stopped"
    with assms(3) ts obtain s1 bs s2 cs where
      xs: "run_loop (peer_iter p s end) xs no_peers = Inr (s1, bs, False)"
      and it: "peer_iter p s end t s1 = Inr (s2, cs, False)"
      by (auto simp: run_loop_append bind_res_Inr_iff split: if_splits)
    from peer_iter_stop [OF assms(1) oks(2) it] peer_known(2) [OF assms(1) oks(1) xs] last
    show False by simp
  qed
qed

theorem peer_exit_witness:
  "\<exists>st acts. run_loop (peer_iter params_init peer_a 0) (demo @ [tick_of (msg_a CHR ''D'')]) no_peers
     = Inr (st, acts, True)"
proof -
  obtain st acts stopped where run: "run_loop (peer_iter params_init peer_a 0)
      (demo @ [tick_of (msg_a CHR ''D'')]) no_peers = Inr (st, acts, stopped)"
    using peer_loop.run_no_fault [OF start_wf peer_loop_adm [OF self_ok_peer_a demo_ok(2)]]
    by (metis prod.exhaust)
  have "last_round params_init peer_a 0 (tick_of (msg_a CHR ''D''))
      (last_word (List.map_filter tick_msg demo) (theUuid peer_a))"
    unfolding last_round_def demo_msgs
    by (intro disjI2 conjI exI [of _ "msg_a CHR ''D''"])
      (simp_all add: tick_of_ok, simp_all add: last_word_def msg_a_def msg_b_def peer_a_def)
  with peer_exit [OF self_ok_peer_a demo_ok(2) run] have stopped by blast
  with run show ?thesis by simp
qed

text \<open>
  C26. Announcements. What a round sends on the proxy socket reads back, whatever the
  stack held, as the peer's own uuid and endpoint, once for each of: a disconnect when the
  time is up, a connect as long as the peer does not know itself, and a connect in reply
  to the first connect message of another peer; in this order and nothing else.
\<close>

theorem peer_announcements:
  assumes "self_ok s" "tick_ok t" "peer_iter p s end t st = Inr (st', acts, stop)"
  shows "map reads (sends_on proxyPub acts) =
    map (\<lambda>cmd. Inr \<lparr>command = cmd, uuid = theUuid s, endpoint = pubEndpoint s\<rparr>)
      (round_commands p s end t (map_of (peers st)))"
  using assms by (rule peer_iter_commands)

theorem peer_announcements_witness:
  "\<exists>st' acts stop. peer_iter params_init peer_a 5 ((tick_of (msg_b CHR ''C''))\<lparr>now := 6\<rparr>) no_peers
       = Inr (st', acts, stop)
     \<and> map reads (sends_on proxyPub acts)
       = [Inr (msg_a CHR ''D''), Inr (msg_a CHR ''C''), Inr (msg_a CHR ''C'')]"
proof -
  let ?t = "(tick_of (msg_b CHR ''C''))\<lparr>now := 6\<rparr>"
  have ok: "tick_ok ?t" "tick_msg ?t = Some (msg_b CHR ''C'')"
    using tick_of_ok [of "msg_b CHR ''C''"] by simp_all
  obtain st' acts stop where it: "peer_iter params_init peer_a 5 ?t no_peers = Inr (st', acts, stop)"
    using peer_loop.no_fault [OF start_wf, of peer_a ?t] ok by (metis prod.exhaust self_ok_peer_a)
  have "round_commands params_init peer_a 5 ?t Map.empty = ''DCC''"
    by (simp add: round_commands_def expired_def tick_of_ok) (simp add: params_init_def msg_b_def peer_a_def)
  with peer_announcements [OF self_ok_peer_a ok(1) it] it show ?thesis
    by (simp add: msg_a_def peer_a_def)
qed

text \<open>
  C11. A complete run. When every call of libzmq succeeds, a peer that leaves its loop has
  made its calls in an order libzmq allows: no call uses a socket that is not open, each
  socket opened, the two of the monitor included, is closed exactly once, and the context
  is terminated with no socket open, so that \<^verbatim>\<open>zmq_ctx_term\<close> cannot wait for a socket; for
  every setting of the options.
\<close>

theorem peer_releases_sockets:
  assumes "all_succeed length ret" "self_ok s" "list_all tick_ok ts"
    and "peer_main ret p s start ts = Inr (st, trace, True)"
  shows "track trace [] = Some [] \<and> last trace = Ctx_Term"
proof -
  let ?hs = "[dataSub, proxySub, proxyPub, dataPub] @ (if socketMonitor p = 1 then [monitorPub, monitorSub] else [])"
  obtain opened acts closed where parts: "peer_setup ret p = Inr opened" "peer_shutdown ret p = Inr closed"
    "run_loop (peer_iter p s (endTime p start)) ts no_peers = Inr (st, acts, True)"
    "trace = opened @ acts @ closed"
    using assms(4) by (rule peer_main_parts)
  have "track opened [] = Some ?hs" using setup_succeeds [OF assms(1), of p] parts(1) by auto
  moreover have "track acts ?hs = Some ?hs"
    by (intro loop_calls_track peer_run_calls [OF assms(2,3) parts(3)]) (auto simp: peer_sockets_def)
  moreover have "track closed ?hs = Some []" using shutdown_succeeds [OF assms(1), of p] parts(2) by auto
  moreover have "\<exists>cs. closed = cs @ [Ctx_Shutdown, Ctx_Term]"
    using parts(2) by (auto simp: peer_shutdown_def bind_res_Inr_iff CALL_INT_FUNC_def)
  ultimately show ?thesis using parts(4) by (auto simp: track_append)
qed

lemma demo_main:
  "\<exists>st trace. peer_main (ret_success length) params_init peer_a 0 (demo @ [tick_of (msg_a CHR ''D'')])
     = Inr (st, trace, True)"
proof -
  have "case peer_main (ret_success length) params_init peer_a 0 (demo @ [tick_of (msg_a CHR ''D'')]) of
      Inr (st, trace, stop) \<Rightarrow> stop | Inl f \<Rightarrow> False"
    by code_simp
  then show ?thesis by (auto split: sum.splits)
qed

theorem peer_releases_sockets_witness:
  "\<exists>st trace. peer_main (ret_success length) params_init peer_a 0 (demo @ [tick_of (msg_a CHR ''D'')])
     = Inr (st, trace, True) \<and> track trace [] = Some []"
  using demo_main peer_releases_sockets [OF all_succeed_ret_success self_ok_peer_a demo_ok(2)] by blast



end
