(* ===== verification/Monitor_Properties.thy ===== *)
theory Monitor_Properties
  imports Monitor
begin

section \<open>Properties of the socket monitors\<close>

subsection \<open>What the monitored socket sends\<close>

text \<open>
  The events libzmq sends on the socket of the first version: a frame of six bytes with the
  event and its value, more to follow, and a frame with the address, the last. An event
  arrives on the socket of a given name.
\<close>

record event1 =
  ev_event :: u16
  ev_value :: u32
  ev_addr :: "byte list"

definition event1_ok :: "event1 \<Rightarrow> bool" where
  "event1_ok e \<longleftrightarrow> 0 \<notin> set (ev_addr e) \<and> length (ev_addr e) \<le> ZMQ_MAX_ENDPOINT_LENGTH"

definition event1_frames :: "event1 \<Rightarrow> frame option \<times> frame option" where
  "event1_frames e =
     (Some (le_bytes 2 (ev_event e) @ le_bytes 4 (ev_value e), True), Some (ev_addr e, False))"

definition event1_log :: "string \<Rightarrow> event1 \<Rightarrow> mon_log" where
  "event1_log name e = \<lparr>log_name = name, log_value = sint (ev_value e), log_event = uint (ev_event e),
     log_desc = get_zmqEventName (uint (ev_event e)), log_endpoint = ev_addr e\<rparr>"

lemma monitorEvent_logs:
  "event1_ok e \<Longrightarrow> monitorEvent (fst (event1_frames e)) (snd (event1_frames e)) name = Inr (0, [event1_log name e])"
  by (simp add: monitorEvent_def event1_frames_def event1_log_def event1_ok_def read_frame1_image
      read_endpoint_ok require_def Let_def)

text \<open>A round in which the sockets named in \<open>evs\<close> have an event waiting.\<close>

definition round_of :: "(string \<times> event1) list \<Rightarrow> bool \<Rightarrow> mon_input" where
  "round_of evs c =
     \<lparr>ready = (\<lambda>name. map_of evs name \<noteq> None),
      got = (\<lambda>name. case map_of evs name of None \<Rightarrow> (None, None) | Some e \<Rightarrow> event1_frames e),
      control = c\<rparr>"

definition round_logs :: "(string \<times> event1) list \<Rightarrow> mon_log list" where
  "round_logs evs =
     concat (map (\<lambda>(h, name). case map_of evs name of None \<Rightarrow> [] | Some e \<Rightarrow> [event1_log name e]) monitored)"

definition logs_of :: "mon_act list \<Rightarrow> mon_log list" where
  "logs_of acts = List.map_filter (\<lambda>a. case a of Mon_Log l \<Rightarrow> Some l | Mon_Call c \<Rightarrow> None) acts"

definition calls_of :: "mon_act list \<Rightarrow> string zcall list" where
  "calls_of acts = List.map_filter (\<lambda>a. case a of Mon_Log l \<Rightarrow> None | Mon_Call c \<Rightarrow> Some c) acts"

lemma logs_of_simps [simp]:
  "logs_of [] = []" "logs_of (Mon_Log l # as) = l # logs_of as" "logs_of (Mon_Call c # as) = logs_of as"
  "logs_of (as @ bs) = logs_of as @ logs_of bs" "logs_of (map Mon_Call cs) = []"
  "logs_of (map Mon_Log ls) = ls"
proof -
  show "logs_of (map Mon_Call cs) = []" by (induction cs) (simp_all add: logs_of_def List.map_filter_simps)
  show "logs_of (map Mon_Log ls) = ls" by (induction ls) (simp_all add: logs_of_def List.map_filter_simps)
qed (simp_all add: logs_of_def List.map_filter_def)

lemma calls_of_simps [simp]:
  "calls_of [] = []" "calls_of (Mon_Log l # as) = calls_of as" "calls_of (Mon_Call c # as) = c # calls_of as"
  "calls_of (as @ bs) = calls_of as @ calls_of bs" "calls_of (map Mon_Call cs) = cs"
  "calls_of (map Mon_Log ls) = []"
proof -
  show "calls_of (map Mon_Call cs) = cs" by (induction cs) (simp_all add: calls_of_def List.map_filter_simps)
  show "calls_of (map Mon_Log ls) = []" by (induction ls) (simp_all add: calls_of_def List.map_filter_simps)
qed (simp_all add: calls_of_def List.map_filter_def)

definition socket_acts :: "(string \<times> event1) list \<Rightarrow> handle \<times> string \<Rightarrow> mon_act list" where
  "socket_acts evs hn =
     (case map_of evs (snd hn) of None \<Rightarrow> []
      | Some e \<Rightarrow> [Mon_Call (Recv (fst hn) False), Mon_Call (Recv (fst hn) False), Mon_Log (event1_log (snd hn) e)])"

lemma monitor_socket_ok:
  assumes "list_all (\<lambda>(name, e). event1_ok e) evs"
  shows "monitor_socket (round_of evs c) hn = Inr (socket_acts evs hn)"
proof -
  obtain h name where hn: "hn = (h, name)" by (cases hn)
  show ?thesis
  proof (cases "map_of evs name")
    case None
    then show ?thesis by (simp add: hn monitor_socket_def round_of_def socket_acts_def)
  next
    case (Some e)
    from map_of_SomeD [OF this] assms have "event1_ok e" by (auto simp: list_all_iff)
    with Some show ?thesis
      by (simp add: hn monitor_socket_def round_of_def socket_acts_def monitorEvent_logs require_def)
  qed
qed

lemma monitor_iter_ok:
  assumes "list_all (\<lambda>(name, e). event1_ok e) evs" "set (monitorSub # map fst monitored) \<subseteq> set hs"
  shows "\<exists>acts. monitor_iter (round_of evs c) s = Inr (s, acts, c) \<and> logs_of acts = round_logs evs
    \<and> track (calls_of acts) hs = Some hs"
proof -
  have "monitor_iter (round_of evs c) s = Inr (s, Mon_Call (Poll (map fst monitored @ [monitorSub]) (-1))
      # concat (map (socket_acts evs) monitored), c)"
    by (simp add: monitor_iter_def monitor_socket_ok [OF assms(1)] monitored_def) (simp add: round_of_def)
  moreover have "logs_of (concat (map (socket_acts evs) monitored)) = round_logs evs"
    by (simp add: monitored_def round_logs_def socket_acts_def split: option.splits)
  moreover have "track (calls_of (concat (map (socket_acts evs) monitored))) hs = Some hs"
    using assms(2) by (intro track_neutral) (auto simp: monitored_def socket_acts_def split: option.splits)
  ultimately show ?thesis
    using assms(2) by (simp add: monitored_def)
qed

text \<open>The rounds of a run, up to the first in which the control socket is readable.\<close>

fun logs_until :: "((string \<times> event1) list \<times> bool) list \<Rightarrow> mon_log list" where
  "logs_until [] = []"
| "logs_until ((evs, c) # rs) = round_logs evs @ (if c then [] else logs_until rs)"

lemma monitor_run:
  assumes "list_all (\<lambda>(evs, c). list_all (\<lambda>(name, e). event1_ok e) evs) rounds"
    "set (monitorSub # map fst monitored) \<subseteq> set hs"
  shows "\<exists>acts. run_loop monitor_iter (map (\<lambda>(evs, c). round_of evs c) rounds) () =
      Inr ((), acts, list_ex snd rounds)
    \<and> logs_of acts = logs_until rounds
    \<and> track (calls_of acts) hs = Some hs"
  using assms(1)
proof (induction rounds)
  case Nil
  then show ?case by simp
next
  case (Cons r rounds)
  obtain evs c where r: "r = (evs, c)" by (cases r)
  with Cons.prems have ok: "list_all (\<lambda>(name, e). event1_ok e) evs" by simp
  from monitor_iter_ok [OF ok assms(2), of c "()"] obtain as where
    as: "monitor_iter (round_of evs c) () = Inr ((), as, c)" "logs_of as = round_logs evs"
      "track (calls_of as) hs = Some hs" by blast
  from Cons obtain bs where
    bs: "run_loop monitor_iter (map (\<lambda>(evs, c). round_of evs c) rounds) () = Inr ((), bs, list_ex snd rounds)"
      "logs_of bs = logs_until rounds"
      "track (calls_of bs) hs = Some hs" by auto
  show ?case
  proof (cases c)
    case True
    with as show ?thesis by (simp add: r)
  next
    case False
    with as bs show ?thesis by (simp add: r track_append)
  qed
qed

lemma monitor_opens:
  assumes "all_succeed length ret" "\<forall>h \<in> set (map fst monitored). h \<notin> set hs"
  shows "\<exists>cs. monitor_open ret = Inr cs \<and> track cs hs = Some (rev (map fst monitored) @ hs)"
  using assms(2) by (simp add: monitor_open_def monitored_def assert_succeeds [OF assms(1)])

section \<open>The properties\<close>

text \<open>
  Event names. Exactly the fifteen single-bit events from 0x0001 to 0x4000 have a name of
  their own; no two share one, and every other value, a combination of bits among them, is
  UNKNOWN.
\<close>

theorem event_names:
  "(get_zmqEventName e \<noteq> ''UNKNOWN'' \<longleftrightarrow> (\<exists>k < (15::nat). e = 2 ^ k))
   \<and> (get_zmqEventName e = get_zmqEventName e' \<longleftrightarrow>
        e = e' \<or> get_zmqEventName e = ''UNKNOWN'' \<and> get_zmqEventName e' = ''UNKNOWN'')"
proof
  have "(\<exists>k < (15::nat). e = 2 ^ k) \<longleftrightarrow> e \<in> set (map (\<lambda>k. 2 ^ k) [0..<15])" by auto
  also have "map (\<lambda>k. 2 ^ k :: int) [0..<15] =
      [1, 2, 4, 8, 16, 32, 64, 128, 256, 512, 1024, 2048, 4096, 8192, 16384]"
    by (simp add: upt_rec)
  finally have pow: "(\<exists>k < (15::nat). e = 2 ^ k) \<longleftrightarrow>
      e \<in> {1, 2, 4, 8, 16, 32, 64, 128, 256, 512, 1024, 2048, 4096, 8192, 16384}"
    by simp
  show "get_zmqEventName e \<noteq> ''UNKNOWN'' \<longleftrightarrow> (\<exists>k < (15::nat). e = 2 ^ k)"
    unfolding pow by (simp add: get_zmqEventName_def event_codes)
next
  show "get_zmqEventName e = get_zmqEventName e' \<longleftrightarrow>
      e = e' \<or> get_zmqEventName e = ''UNKNOWN'' \<and> get_zmqEventName e' = ''UNKNOWN''"
    unfolding get_zmqEventName_def event_codes by (simp split: if_splits)
qed

text \<open>
  C38. Reading an event of the first version. Whatever the event, its value and the address,
  the two frames are read back and logged as they were sent, exactly as long as the address
  and a terminator fit the array of 257 characters; a longer address overruns it, and one of
  exactly 257 characters is printed without a terminator.
\<close>

theorem monitor_event_read:
  assumes "0 \<notin> set (ev_addr e)"
  shows "monitorEvent (fst (event1_frames e)) (snd (event1_frames e)) name =
    (if length (ev_addr e) \<le> ZMQ_MAX_ENDPOINT_LENGTH then Inr (0, [event1_log name e])
     else if length (ev_addr e) = ZMQ_MAX_ENDPOINT_LENGTH + 1 then Inl Unterminated
     else Inl Buffer_Overflow)"
proof (cases "event1_ok e")
  case True
  then show ?thesis by (simp add: monitorEvent_logs event1_ok_def)
next
  case False
  with assms have "length (ev_addr e) > ZMQ_MAX_ENDPOINT_LENGTH" by (simp add: event1_ok_def)
  with assms show ?thesis
    by (auto simp: monitorEvent_def event1_frames_def read_frame1_image require_def read_endpoint_def Let_def)
qed

theorem monitor_event_read_witness:
  "monitorEvent (fst (event1_frames \<lparr>ev_event = 0x200, ev_value = -1, ev_addr = [116, 99, 112]\<rparr>))
     (snd (event1_frames \<lparr>ev_event = 0x200, ev_value = -1, ev_addr = [116, 99, 112]\<rparr>)) ''dataSub''
   = Inr (0, [\<lparr>log_name = ''dataSub'', log_value = -1, log_event = 0x200, log_desc = ''DISCONNECTED'',
               log_endpoint = [116, 99, 112]\<rparr>])"
  using monitor_event_read [of "\<lparr>ev_event = 0x200, ev_value = -1, ev_addr = [116, 99, 112]\<rparr>" "''dataSub''"]
  by (simp add: event1_log_def ZMQ_MAX_ENDPOINT_LENGTH_def get_zmqEventName_def event_codes)

text \<open>
  C10. The monitor thread. When the calls succeed and the events are well formed, the thread
  never aborts: it logs each event once, in the order of the sockets within a round and of
  the rounds, up to the first round in which its control socket is readable; it returns
  exactly if there is such a round, with its own four sockets closed and no other.
\<close>

theorem monitor_thread:
  assumes "all_succeed length ret"
    and "list_all (\<lambda>(evs, c). list_all (\<lambda>(name, e). event1_ok e) evs) rounds"
  shows "\<exists>acts. monitorFunc ret (map (\<lambda>(evs, c). round_of evs c) rounds) = Inr (acts, list_ex snd rounds)
    \<and> logs_of acts = logs_until rounds
    \<and> track (calls_of acts) [monitorPub, monitorSub] =
        Some ((if list_ex snd rounds then [] else rev (map fst monitored)) @ [monitorPub, monitorSub])"
proof -
  let ?hs = "[monitorPub, monitorSub]"
  obtain cs where cs: "monitor_open ret = Inr cs" "track cs ?hs = Some (rev (map fst monitored) @ ?hs)"
    using monitor_opens [OF assms(1), of ?hs] by (auto simp: monitored_def)
  obtain acts where run: "run_loop monitor_iter (map (\<lambda>(evs, c). round_of evs c) rounds) () =
      Inr ((), acts, list_ex snd rounds)" "logs_of acts = logs_until rounds"
    "track (calls_of acts) (rev (map fst monitored) @ ?hs) = Some (rev (map fst monitored) @ ?hs)"
    using monitor_run [OF assms(2), of "rev (map fst monitored) @ ?hs"] by auto
  then show ?thesis
    using cs run by (simp add: monitorFunc_def monitor_close_def monitored_def assert_succeeds [OF assms(1)] track_append)
qed

definition demo_event :: event1 where
  "demo_event = \<lparr>ev_event = 1, ev_value = 12, ev_addr = [116, 99, 112]\<rparr>"

theorem monitor_thread_witness:
  "\<exists>acts. monitorFunc (ret_success length)
      [round_of [(''dataSub'', demo_event), (''dataPub'', demo_event)] False, round_of [] True] = Inr (acts, True)
    \<and> logs_of acts = [event1_log ''dataPub'' demo_event, event1_log ''dataSub'' demo_event]
    \<and> track (calls_of acts) [monitorPub, monitorSub] = Some [monitorPub, monitorSub]"
proof -
  have "event1_ok demo_event" by (simp add: event1_ok_def demo_event_def ZMQ_MAX_ENDPOINT_LENGTH_def)
  then show ?thesis
    using monitor_thread [OF all_succeed_ret_success,
        of "[([(''dataSub'', demo_event), (''dataPub'', demo_event)], False), ([], True)]"]
    by (simp add: round_logs_def monitored_def)
qed

text \<open>
  C37. Reading an event of the second version. Whatever the number of values and what they
  are, the event is read from its frames, exactly as many as were sent, and logged with its
  name, the last of the values (0 when there is none) and both addresses.
\<close>

theorem monitor_event_v2_read:
  assumes "length vs < 2 ^ 64" "event1_ok \<lparr>ev_event = 0, ev_value = 0, ev_addr = loc\<rparr>"
    and "event1_ok \<lparr>ev_event = 0, ev_value = 0, ev_addr = rem\<rparr>"
    and "\<And>k. k < length vs + 4 \<Longrightarrow> recv k = Some (v2_frames event vs loc rem ! k)"
  shows "monitorEvent_v2 recv name =
    Inr (0, [\<lparr>log2_name = name, log2_event = get_zmqEventName (sint (ucast event :: u32)),
              log2_value = last (0 # vs), log2_local = loc, log2_remote = rem\<rparr>])"
proof -
  let ?n = "length vs"
  have n: "unat (of_nat ?n :: u64) = ?n" using assms(1) by (simp add: unsigned_of_nat take_bit_nat_eq_self_iff)
  have frames: "recv 0 = Some (le_bytes 8 event)" "recv 1 = Some (le_bytes 8 (of_nat ?n :: u64))"
    "recv (2 + ?n) = Some loc" "recv (3 + ?n) = Some rem"
    using assms(4) [of 0] assms(4) [of 1] assms(4) [of "2 + ?n"] assms(4) [of "3 + ?n"]
    by (simp_all add: v2_frames_def nth_append numeral_eq_Suc)
  have "recv (2 + j) = Some (le_bytes 8 (vs ! j))" if "j < ?n" for j
    using assms(4) [of "2 + j"] that by (simp add: v2_frames_def nth_append)
  from read_values_frames [of vs recv 2 0, OF this]
  have vals: "read_values recv 2 ?n 0 = Inr (Some (last (0 # vs)))" .
  have addrs: "read_endpoint loc = Inr loc" "read_endpoint rem = Inr rem"
    using assms(2,3) by (simp_all add: event1_ok_def read_endpoint_ok)
  show ?thesis
    unfolding monitorEvent_v2_def frames option.case read_u64_image bind_res_simps Let_def n vals addrs
    by simp
qed

theorem monitor_event_v2_read_witness:
  "monitorEvent_v2 (\<lambda>k. if k < 6 then Some (v2_frames 0x80 [3, 7] [49] [50] ! k) else None) ''dataSub'' =
    Inr (0, [\<lparr>log2_name = ''dataSub'', log2_event = ''CLOSED'', log2_value = 7, log2_local = [49], log2_remote = [50]\<rparr>])"
proof -
  have "event1_ok \<lparr>ev_event = 0, ev_value = 0, ev_addr = [49]\<rparr>" "event1_ok \<lparr>ev_event = 0, ev_value = 0, ev_addr = [50]\<rparr>"
    by (simp_all add: event1_ok_def ZMQ_MAX_ENDPOINT_LENGTH_def)
  from monitor_event_v2_read [OF _ this, of "[3, 7]"
      "\<lambda>k. if k < 6 then Some (v2_frames 0x80 [3, 7] [49] [50] ! k) else None" "0x80" "''dataSub''"]
  show ?thesis by (simp add: get_zmqEventName_def event_codes)
qed

end
