(* ===== verification/Reconnect.thy ===== *)
theory Reconnect
  imports Peer_Properties
begin

section \<open>The reconnect and connect programs\<close>

text \<open>
  reconnect/peer.cpp is a version of the discovery peer without its options and with
  \<^verbatim>\<open>ZMQ_RECONNECT_STOP\<close> where libzmq has it. reconnect/connect.cpp, connect/connect.cpp and
  connect/dummy.cpp are small programs that open one monitored socket and wait.
  \<open>build\<close> says which of the two macros tested with \<^verbatim>\<open>#ifdef\<close> libzmq's header defines.
\<close>

record build =
  has_reconnect_stop :: bool
  has_min_zmtp :: bool

definition tcp_endpoint :: "reconnect_params \<Rightarrow> string \<Rightarrow> string" where
  "tcp_endpoint rp prt = ''tcp://'' @ the (tcpAddr rp) @ '':'' @ prt"

subsection \<open>reconnect/peer.cpp\<close>

definition reconnect_setup :: "string returns \<Rightarrow> build \<Rightarrow> reconnect_params \<Rightarrow> fault + string zcall list" where
  "reconnect_setup ret b rp = stmts
     [Inr [Ctx_New],
      startMonitor ret,
      Inr [Socket dataPub ZMQ_PUB, Monitor dataPub (Some ''inproc://dataPub'')],
      bind_res (sprintf_buf (ZMQ_MAX_ENDPOINT_LENGTH + 1) (tcp_endpoint rp (dec_of (rport rp)))) (\<lambda>addr.
        Inr [Bind dataPub addr, Getsockopt dataPub Last_Endpoint]),
      Inr [Socket proxyPub ZMQ_PUB, Monitor proxyPub (Some ''inproc://proxyPub''),
           Socket proxySub ZMQ_SUB, Monitor proxySub (Some ''inproc://proxySub''),
           Setsockopt proxySub (Subscribe [])],
      bind_res (sprintf_buf (ZMQ_MAX_ENDPOINT_LENGTH + 1) (tcp_endpoint rp ''5555'')) (\<lambda>addr.
        Inr [Connect proxySub addr]),
      Inr ([Socket dataSub ZMQ_SUB, Monitor dataSub (Some ''inproc://dataSub''),
            Setsockopt dataSub (Heartbeat_Ivl 1000)]
           @ (if has_reconnect_stop b then [Setsockopt dataSub (Reconnect_Stop (stopReconnectOnError rp))] else [])
           @ [Setsockopt dataSub (Subscribe [])])]"

definition reconnect_msg ::
  "build \<Rightarrow> reconnect_params \<Rightarrow> self \<Rightarrow> string \<Rightarrow> connect_msg \<Rightarrow> peer_state
     \<Rightarrow> fault + peer_state \<times> string zcall list \<times> bool" where
  "reconnect_msg b rp s mem m st =
     (if command m = CHR ''W'' then
        Inr (st, (if has_reconnect_stop b then [Setsockopt proxyPub (Reconnect_Stop (stopReconnectOnError rp))] else [])
                 @ [Connect proxyPub (endpoint m)], False)
      else if command m = CHR ''C'' then
        (if map_of (peers st) (uuid m) = None then
           bind_res (if_then (uuid m \<noteq> theUuid s)
                       (sendConnectMsg mem proxyPub CHR ''C'' (theUuid s) (pubEndpoint s))) (\<lambda>reply.
             Inr (st\<lparr>peers := sm_put (uuid m) (endpoint m) (peers st)\<rparr>,
                  Connect dataSub (endpoint m) # reply, False))
         else Inr (st, [], False))
      else if command m = CHR ''D'' then
        (if map_of (peers st) (uuid m) \<noteq> None then
           Inr (st\<lparr>peers := sm_erase (uuid m) (peers st)\<rparr>, [Disconnect dataSub (endpoint m)],
                uuid m = theUuid s)
         else Inr (st, [], False))
      else Inr (st, [], False))"

definition reconnect_iter ::
  "build \<Rightarrow> reconnect_params \<Rightarrow> self \<Rightarrow> (tick, peer_state, string zcall, fault) iteration" where
  "reconnect_iter b rp s t st =
     bind_res (if_then (map_of (peers st) (theUuid s) = None)
                 (sendConnectMsg (mem_hello t) proxyPub CHR ''C'' (theUuid s) (pubEndpoint s))) (\<lambda>hello.
     bind_res (if proxy_ready t then
                 bind_res (read_connect_msg (received t)) (\<lambda>m.
                 bind_res (reconnect_msg b rp s (mem_reply t) m st) (\<lambda>(st', acts, stop).
                   Inr (st', Recv proxySub False # acts, stop)))
               else Inr (st, [], False)) (\<lambda>(st', acts, stop).
       Inr (st', [Poll [proxySub, dataSub] 1000] @ hello @ acts
                 @ (if \<not> stop \<and> data_ready t then [Recv dataSub False] else []), stop)))"

definition reconnect_shutdown :: "string returns \<Rightarrow> fault + string zcall list" where
  "reconnect_shutdown ret = stmts
     (concat (map (\<lambda>h. [assert_zero ret (Monitor h None), CALL_INT_FUNC (Close h)])
                [dataPub, dataSub, proxyPub, proxySub])
      @ [stopMonitor ret, CALL_INT_FUNC Ctx_Shutdown, CALL_INT_FUNC Ctx_Term])"

definition reconnect_main ::
  "string returns \<Rightarrow> build \<Rightarrow> reconnect_params \<Rightarrow> self \<Rightarrow> tick list
     \<Rightarrow> fault + peer_state \<times> string zcall list \<times> bool" where
  "reconnect_main ret b rp s ticks =
     bind_res (reconnect_setup ret b rp) (\<lambda>opened.
     bind_res (run_loop (reconnect_iter b rp s) ticks \<lparr>peers = []\<rparr>) (\<lambda>(st, acts, stopped).
       if stopped then
         bind_res (reconnect_shutdown ret) (\<lambda>closed. Inr (st, opened @ acts @ closed, True))
       else Inr (st, opened @ acts, False)))"

subsection \<open>Programs that wait\<close>

text \<open>
  \<open>join_monitor\<close> is \<^verbatim>\<open>stopMonitor\<close> next to the thread it joins: when the thread's function
  does not return, the program stays in \<^verbatim>\<open>pthread_join\<close>.
\<close>

definition join_monitor :: "string returns \<Rightarrow> bool \<Rightarrow> fault + string zcall list \<times> bool" where
  "join_monitor ret returned =
     (if returned then bind_res (stopMonitor ret) (\<lambda>calls. Inr (calls, True))
      else bind_res (assert_that (ret (Send monitorPub ''X'' False) = 1) (Send monitorPub ''X'' False)) (\<lambda>calls.
        Inr (calls @ [Thread_Join ''monitorFunc''], False)))"

definition finish :: "string returns \<Rightarrow> bool \<Rightarrow> string zcall list \<Rightarrow> fault + string zcall list \<times> bool" where
  "finish ret returned before =
     bind_res (join_monitor ret returned) (\<lambda>(calls, joined).
       if joined then Inr (before @ calls @ [Ctx_Shutdown, Ctx_Term], True)
       else Inr (before @ calls, False))"

text \<open>reconnect/connect.cpp. The events that arrive at its monitor thread are an input.\<close>

definition reconnect_connect_main ::
  "string returns \<Rightarrow> build \<Rightarrow> reconnect_params \<Rightarrow> (frame option \<times> frame option) option list
     \<Rightarrow> fault + string zcall list \<times> bool" where
  "reconnect_connect_main ret b rp events =
     bind_res (stmts
       [Inr [Ctx_New],
        startMonitor_with ret ''connectMonitor'',
        Inr ([Socket dataSub ZMQ_SUB, Monitor dataSub (Some ''inproc://dataSub''),
              Setsockopt dataSub (Reconnect_Ivl (interval rp)), Setsockopt dataSub (Handshake_Ivl (interval rp))]
             @ (if has_min_zmtp b then [Setsockopt dataSub (Min_Zmtp_Version 3 0)] else [])
             @ (if has_reconnect_stop b then [Setsockopt dataSub (Reconnect_Stop (stopReconnectOnError rp))] else [])
             @ [Setsockopt dataSub (Subscribe []),
                Connect dataSub (''tcp://127.0.0.1:'' @ dec_of (rport rp)), Sleep 120]),
        assert_zero ret (Monitor dataSub None),
        CALL_INT_FUNC (Close dataSub)]) (\<lambda>before.
     bind_res (connectMonitor ret events) (\<lambda>(_, returned). finish ret returned before))"

text \<open>connect/connect.cpp.\<close>

definition connect_main ::
  "string returns \<Rightarrow> reconnect_params \<Rightarrow> (nat \<Rightarrow> byte list option) option list
     \<Rightarrow> fault + string zcall list \<times> bool" where
  "connect_main ret rp events =
     bind_res (stmts
       [Inr [Ctx_New],
        startMonitor_with ret ''monitorFunc'',
        Inr [Socket dataSub ZMQ_SUB, Monitor_Versioned dataSub ''inproc://dataSub'' 2 ZMQ_PAIR,
             Setsockopt dataSub (Reconnect_Ivl (interval rp)), Setsockopt dataSub (Handshake_Ivl (interval rp)),
             Setsockopt dataSub (Reconnect_Stop (stopReconnectOnError rp)), Setsockopt dataSub (Subscribe [])],
        bind_res (sprintf_buf (ZMQ_MAX_ENDPOINT_LENGTH + 1) (tcp_endpoint rp (dec_of (rport rp)))) (\<lambda>addr.
          Inr [Connect dataSub addr, Sleep 120]),
        assert_zero ret (Monitor dataSub None),
        CALL_INT_FUNC (Close dataSub)]) (\<lambda>before.
     bind_res (connect_monitorFunc ret events) (\<lambda>(_, returned). finish ret returned before))"

text \<open>connect/dummy.cpp, which starts a monitor thread and does not stop it.\<close>

abbreviation pub :: handle where "pub \<equiv> Var ''pub''"

definition dummy_main :: "string returns \<Rightarrow> reconnect_params \<Rightarrow> fault + string zcall list" where
  "dummy_main ret rp = stmts
     [Inr [Ctx_New],
      startMonitor_with ret ''monitorFunc'',
      assert_nonnull ret (Socket pub ZMQ_PUB),
      Inr [Monitor_Versioned pub ''inproc://dataSub'' 2 ZMQ_PAIR],
      bind_res (sprintf_buf (ZMQ_MAX_ENDPOINT_LENGTH + 1) (tcp_endpoint rp (dec_of (rport rp)))) (\<lambda>addr.
        Inr [Bind pub addr, Sleep 99999]),
      assert_zero ret (Monitor pub None),
      CALL_INT_FUNC (Close pub),
      CALL_INT_FUNC Ctx_Shutdown,
      CALL_INT_FUNC Ctx_Term]"

section \<open>Facts about the reconnect programs\<close>

abbreviation stop_opt :: "reconnect_params \<Rightarrow> string zcall" where
  "stop_opt rp \<equiv> Setsockopt proxyPub (Reconnect_Stop (stopReconnectOnError rp))"

lemma init_flags:
  "fix1256 params_init = 0" "sendAfterDisconnect params_init = 0" "duplicateDisconnect params_init = 0"
  "pollAfterDisconnect params_init = 0" "immediateExit params_init = 0"
  by (simp_all add: params_init_def)

lemma filter_send:
  "sendConnectMsg mem h cmd u e = Inr cs \<Longrightarrow> filter (\<lambda>c. c \<noteq> stop_opt rp) cs = cs"
  by (auto simp: sendConnectMsg_def bind_res_Inr_iff)

lemma reconnect_msg_is_handle_msg:
  "bind_res (reconnect_msg b rp s mem m st) (\<lambda>(st', acts, stop). Inr (st', filter (\<lambda>c. c \<noteq> stop_opt rp) acts, stop))
     = handle_msg params_init s mem m st"
  by (auto simp: reconnect_msg_def handle_msg_def handle_welcome_def handle_connect_def
      handle_disconnect_def if_then_def bind_res_def filter_send Let_def init_flags split: sum.splits)

lemma reconnect_iter_is_peer_iter:
  "bind_res (reconnect_iter b rp s t st) (\<lambda>(st', acts, stop). Inr (st', filter (\<lambda>c. c \<noteq> stop_opt rp) acts, stop))
     = peer_iter params_init s 0 t st"
proof -
  have "fix1256 params_init = 0" "\<not> expired 0 t" by (simp_all add: init_flags expired_def)
  moreover have "bind_res (read_connect_msg (received t)) (\<lambda>m.
       bind_res (handle_msg params_init s (mem_reply t) m st) (\<lambda>(st', acts, stop). Inr (st', Recv proxySub False # acts, stop)))
    = bind_res (read_connect_msg (received t)) (\<lambda>m.
       bind_res (reconnect_msg b rp s (mem_reply t) m st) (\<lambda>(st', acts, stop).
         Inr (st', Recv proxySub False # filter (\<lambda>c. c \<noteq> stop_opt rp) acts, stop)))"
    by (simp add: reconnect_msg_is_handle_msg [symmetric, where b = b and rp = rp])
      (auto simp: bind_res_def split: sum.splits)
  ultimately show ?thesis
    by (auto simp: reconnect_iter_def peer_iter_def handle_proxy_def if_then_def bind_res_def filter_send
        split: sum.splits)
qed

subsection \<open>The sockets of reconnect/peer.cpp\<close>

lemma reconnect_setup_track:
  assumes "reconnect_setup ret b rp = Inr cs"
  shows "track cs [] = Some [dataSub, proxySub, proxyPub, dataPub, monitorPub, monitorSub]"
  using assms
  by (auto simp: reconnect_setup_def startMonitor_def bind_res_Inr_iff checked_iffs sprintf_buf_def
      split: if_splits)

lemma reconnect_shutdown_track:
  assumes "reconnect_shutdown ret = Inr cs"
  shows "track cs [dataSub, proxySub, proxyPub, dataPub, monitorPub, monitorSub] = Some []"
  using assms
  by (auto simp: reconnect_shutdown_def stopMonitor_def bind_res_Inr_iff checked_iffs)

definition reconnect_call :: "string zcall \<Rightarrow> bool" where
  "reconnect_call c \<longleftrightarrow> neutral c \<and> set (uses c) \<subseteq> {dataPub, proxyPub, proxySub, dataSub}"

lemma reconnect_call_simps [simp]:
  "reconnect_call (Poll [proxySub, dataSub] n)" "reconnect_call (Recv proxySub nw)"
  "reconnect_call (Recv dataSub nw)" "reconnect_call (Connect proxyPub e)" "reconnect_call (Connect dataSub e)"
  "reconnect_call (Disconnect dataSub e)" "reconnect_call (Send proxyPub bs nw)"
  "reconnect_call (Setsockopt proxyPub opt)"
  by (simp_all add: reconnect_call_def)

lemma reconnect_send_calls:
  "if_then c (sendConnectMsg mem proxyPub cmd u e) = Inr cs \<Longrightarrow> list_all reconnect_call cs"
  by (auto simp: if_then_def sendConnectMsg_def bind_res_Inr_iff split: if_splits)

lemma reconnect_msg_calls:
  "reconnect_msg b rp s mem m st = Inr (st', acts, stop) \<Longrightarrow> list_all reconnect_call acts"
  by (auto simp: reconnect_msg_def bind_res_Inr_iff dest: reconnect_send_calls split: if_splits)

interpretation reconnect_calls: traced_loop "reconnect_iter b rp s" "\<lambda>_. True"
  "\<lambda>h (_ :: peer_state). list_all reconnect_call h"
proof unfold_locales
  fix h st t st' acts stop
  assume "list_all reconnect_call h" "reconnect_iter b rp s t st = Inr (st', acts, stop)"
  then show "list_all reconnect_call (h @ acts)"
    by (auto simp: reconnect_iter_def bind_res_Inr_iff dest!: reconnect_send_calls reconnect_msg_calls
        split: if_splits prod.splits)
qed

lemma reconnect_run_track:
  assumes "run_loop (reconnect_iter b rp s) ts st = Inr (st', acts, stop)"
    and "{dataPub, proxyPub, proxySub, dataSub} \<subseteq> set hs"
  shows "track acts hs = Some hs"
proof -
  have "list_all reconnect_call acts"
    using reconnect_calls.good_run [OF _ _ assms(1), of "[]"] by (simp add: list_all_iff)
  with assms(2) show ?thesis
    by (intro track_neutral) (auto simp: list_all_iff reconnect_call_def)
qed

lemma connectMonitor_stays: "connectMonitor ret events \<noteq> Inr (acts, True)"
  by (auto simp: connectMonitor_def bind_res_Inr_iff split: if_splits
      dest: run_loop_never_stops [OF reconnect_monitor_iter_goes_on, THEN notE])

lemma connect_monitorFunc_stays: "connect_monitorFunc ret events' \<noteq> Inr (acts, True)"
  by (auto simp: connect_monitorFunc_def bind_res_Inr_iff split: if_splits
      dest: run_loop_never_stops [OF connect_monitor_iter_goes_on, THEN notE])

lemma finish_waits: "finish ret False before = Inr (calls, ended) \<Longrightarrow> \<not> ended \<and> last calls = Thread_Join ''monitorFunc''"
  by (auto simp: finish_def join_monitor_def bind_res_Inr_iff)

section \<open>The properties\<close>

text \<open>
  C23. Equivalence. On every series of inputs the loop of reconnect/peer.cpp does what the
  loop of 3186/peer.cpp does with its default options: it keeps the same peers, stops in
  the same round, fails the same way, and makes the same calls in the same order but for
  the reconnect-stop option it sets on the proxy socket.
\<close>

theorem reconnect_loop_is_peer_loop:
  "bind_res (run_loop (reconnect_iter b rp s) ts st)
     (\<lambda>(st', acts, stop). Inr (st', filter (\<lambda>c. c \<noteq> stop_opt rp) acts, stop))
   = run_loop (peer_iter params_init s 0) ts st"
  by (rule run_loop_filter) (rule reconnect_iter_is_peer_iter)

text \<open>
  Endpoint buffers. When libzmq's calls succeed, the setup of reconnect/peer.cpp goes
  through exactly if both endpoints it builds from the address of the command line have at
  most 256 characters; a longer address overruns the array on the stack.
\<close>

theorem reconnect_setup_fits:
  assumes "all_succeed length ret"
  shows "if length (tcp_endpoint rp (dec_of (rport rp))) \<le> ZMQ_MAX_ENDPOINT_LENGTH
      \<and> length (tcp_endpoint rp ''5555'') \<le> ZMQ_MAX_ENDPOINT_LENGTH
    then \<exists>cs. reconnect_setup ret b rp = Inr cs \<and> Connect proxySub (tcp_endpoint rp ''5555'') \<in> set cs
      \<and> Bind dataPub (tcp_endpoint rp (dec_of (rport rp))) \<in> set cs
    else reconnect_setup ret b rp = Inl Buffer_Overflow"
  by (simp add: reconnect_setup_def startMonitor_def assert_succeeds [OF assms] sprintf_buf_def)

theorem reconnect_setup_fits_witness:
  "reconnect_setup (ret_success length) \<lparr>has_reconnect_stop = True, has_min_zmtp = False\<rparr>
     \<lparr>rport = 7, stopReconnectOnError = 0, tcpAddr = Some (replicate 300 CHR ''1''), interval = 0\<rparr>
   = Inl Buffer_Overflow"
  using reconnect_setup_fits [OF all_succeed_ret_success,
      of "\<lparr>rport = 7, stopReconnectOnError = 0, tcpAddr = Some (replicate 300 CHR ''1''), interval = 0\<rparr>"
         "\<lparr>has_reconnect_stop = True, has_min_zmtp = False\<rparr>"]
  by (simp add: tcp_endpoint_def ZMQ_MAX_ENDPOINT_LENGTH_def)

text \<open>
  A complete run of reconnect/peer.cpp that ends has opened each of its six sockets once,
  used only open ones, and closed each once before the context is terminated.
\<close>

theorem reconnect_releases_sockets:
  assumes "reconnect_main ret b rp s ts = Inr (st, trace, True)"
  shows "track trace [] = Some [] \<and> last trace = Ctx_Term"
proof -
  let ?hs = "[dataSub, proxySub, proxyPub, dataPub, monitorPub, monitorSub]"
  from assms obtain opened acts closed where parts: "reconnect_setup ret b rp = Inr opened"
    "run_loop (reconnect_iter b rp s) ts \<lparr>peers = []\<rparr> = Inr (st, acts, True)"
    "reconnect_shutdown ret = Inr closed" "trace = opened @ acts @ closed"
    by (auto simp: reconnect_main_def bind_res_Inr_iff split: if_splits)
  have "track opened [] = Some ?hs" using parts(1) by (rule reconnect_setup_track)
  moreover have "track acts ?hs = Some ?hs" by (rule reconnect_run_track [OF parts(2)]) simp
  moreover have "track closed ?hs = Some []" using parts(3) by (rule reconnect_shutdown_track)
  moreover have "\<exists>cs. closed = cs @ [Ctx_Shutdown, Ctx_Term]"
    using parts(3) by (auto simp: reconnect_shutdown_def bind_res_Inr_iff checked_iffs)
  ultimately show ?thesis using parts(4) by (auto simp: track_append)
qed

lemma reconnect_demo:
  "\<exists>st trace. reconnect_main (ret_success length) \<lparr>has_reconnect_stop = True, has_min_zmtp = False\<rparr>
     (reconnect_params_init\<lparr>tcpAddr := Some ''127.0.0.1''\<rparr>) peer_a
     [tick_of (msg_a CHR ''W''), tick_of (msg_a CHR ''C''), tick_of (msg_a CHR ''D'')] = Inr (st, trace, True)"
proof -
  have "case reconnect_main (ret_success length) \<lparr>has_reconnect_stop = True, has_min_zmtp = False\<rparr>
      (reconnect_params_init\<lparr>tcpAddr := Some ''127.0.0.1''\<rparr>) peer_a
      [tick_of (msg_a CHR ''W''), tick_of (msg_a CHR ''C''), tick_of (msg_a CHR ''D'')]
    of Inr (st, trace, stop) \<Rightarrow> stop | Inl f \<Rightarrow> False"
    by code_simp
  then show ?thesis by (auto split: sum.splits)
qed

theorem reconnect_releases_sockets_witness:
  "\<exists>st trace. reconnect_main (ret_success length) \<lparr>has_reconnect_stop = True, has_min_zmtp = False\<rparr>
     (reconnect_params_init\<lparr>tcpAddr := Some ''127.0.0.1''\<rparr>) peer_a
     [tick_of (msg_a CHR ''W''), tick_of (msg_a CHR ''C''), tick_of (msg_a CHR ''D'')] = Inr (st, trace, True)
   \<and> track trace [] = Some []"
  using reconnect_demo reconnect_releases_sockets by blast

text \<open>
  C39. connect.cpp in both directories never comes to its end, whatever events its monitor
  thread receives: the thread has no way out of its loop, so \<^verbatim>\<open>stopMonitor\<close> waits for it in
  \<^verbatim>\<open>pthread_join\<close> and the context is never terminated.
\<close>

theorem connect_never_ends:
  "connect_main ret rp events \<noteq> Inr (calls, True)
   \<and> reconnect_connect_main ret b rp events' \<noteq> Inr (calls, True)"
  using connect_monitorFunc_stays [of ret events] connectMonitor_stays [of ret events']
  by (auto simp: connect_main_def reconnect_connect_main_def bind_res_Inr_iff dest!: finish_waits
      split: prod.splits)

text \<open>
  connect/dummy.cpp terminates the context with the two sockets of its monitor still
  open, which libzmq documents as a wait without end.
\<close>

theorem dummy_leaves_monitor_open:
  assumes "dummy_main ret rp = Inr calls"
  shows "last calls = Ctx_Term \<and> track (butlast calls) [] = Some [monitorPub, monitorSub] \<and> track calls [] = None"
  using assms
  by (auto simp: dummy_main_def startMonitor_with_def bind_res_Inr_iff checked_iffs sprintf_buf_def
      split: if_splits)

theorem dummy_leaves_monitor_open_witness:
  "\<exists>calls. dummy_main (ret_success length) (reconnect_params_init\<lparr>tcpAddr := Some ''127.0.0.1''\<rparr>) = Inr calls
     \<and> track (butlast calls) [] = Some [monitorPub, monitorSub]"
proof -
  have "\<exists>calls. dummy_main (ret_success length) (reconnect_params_init\<lparr>tcpAddr := Some ''127.0.0.1''\<rparr>) = Inr calls"
    by (simp add: dummy_main_def startMonitor_with_def CALL_INT_FUNC_def sprintf_buf_def tcp_endpoint_def
        ZMQ_MAX_ENDPOINT_LENGTH_def reconnect_params_init_def dec_of_def dec_of_nat.simps
        assert_succeeds [OF all_succeed_ret_success])
  with dummy_leaves_monitor_open show ?thesis by blast
qed

end
