(* ===== verification/Proxy.thy ===== *)
theory Proxy
  imports Peer_Properties
begin

section \<open>The proxies, 3186/proxy.c and reconnect/proxy.cpp\<close>

text \<open>
  A proxy binds an XSUB socket, asks for the endpoint it got, and publishes that endpoint
  in the welcome message of its XPUB socket, which libzmq sends to each subscriber that
  connects. \<open>mem\<close> is the welcome message's memory before it is filled, \<open>sub\<close> the array
  \<^verbatim>\<open>subEndpoint\<close> after the query. \<^verbatim>\<open>zmq_proxy\<close> returns when the program is interrupted.
\<close>

abbreviation frontend :: handle where "frontend \<equiv> Var ''frontend''"
abbreviation backend :: handle where "backend \<equiv> Var ''backend''"

definition proxy_main :: "string \<Rightarrow> string \<Rightarrow> string \<Rightarrow> fault + string zcall list" where
  "proxy_main mem u sub =
     bind_res (cstr_in sub) (\<lambda>subEndpoint.
     bind_res (fill_connect_msg mem CHR ''W'' u subEndpoint) (\<lambda>welcomeMsg.
       Inr [Ctx_New, Socket frontend ZMQ_XSUB, Bind frontend ''tcp://127.0.0.1:*'',
            Getsockopt frontend Last_Endpoint, Socket backend ZMQ_XPUB,
            Setsockopt backend (Xpub_Welcome_Msg welcomeMsg), Bind backend ''tcp://127.0.0.1:5555'',
            Proxy frontend backend, Close frontend, Close backend, Ctx_Term]))"

definition reconnect_proxy_main :: "reconnect_params \<Rightarrow> string \<Rightarrow> string \<Rightarrow> string \<Rightarrow> fault + string zcall list" where
  "reconnect_proxy_main rp mem u sub =
     bind_res (sprintf_buf (ZMQ_MAX_ENDPOINT_LENGTH + 1) (''tcp://'' @ the (tcpAddr rp) @ '':0'')) (\<lambda>front.
     bind_res (cstr_in sub) (\<lambda>subEndpoint.
     bind_res (fill_connect_msg mem CHR ''W'' u subEndpoint) (\<lambda>welcomeMsg.
     bind_res (sprintf_buf (ZMQ_MAX_ENDPOINT_LENGTH + 1) (''tcp://'' @ the (tcpAddr rp) @ '':5555'')) (\<lambda>back.
       Inr [Ctx_New, Socket frontend ZMQ_XSUB, Bind frontend front,
            Getsockopt frontend Last_Endpoint, Socket backend ZMQ_XPUB,
            Setsockopt backend (Xpub_Welcome_Msg welcomeMsg), Bind backend back,
            Proxy frontend backend, Close frontend, Close backend, Ctx_Term]))))"

section \<open>Facts about the proxies\<close>

text \<open>A peer that receives a welcome message connects to the endpoint in it and changes nothing else.\<close>

lemma peer_takes_welcome:
  assumes "proxy_ready t" "proxy_frame t = Some bs" "length (mem_recv t) = length bs"
    and "read_connect_msg bs = Inr m" "command m = CHR ''W''"
  shows "handle_proxy p s t st = Inr (st, [Recv proxySub False, Connect proxyPub (endpoint m)], False)"
  using assms by (simp add: handle_proxy_def received_def fill_buf_def handle_msg_def handle_welcome_def)

definition welcomed :: "string \<Rightarrow> string \<Rightarrow> bool" where
  "welcomed ep msg \<longleftrightarrow> length msg = connect_msg_size
     \<and> (case read_connect_msg msg of Inl _ \<Rightarrow> False | Inr m \<Rightarrow> command m = CHR ''W'' \<and> endpoint m = ep)"

lemma welcome_msg:
  assumes "length mem = connect_msg_size" "sendable u ep"
  shows "\<exists>msg. fill_connect_msg mem CHR ''W'' u ep = Inr msg \<and> welcomed ep msg"
  using read_fill_connect_msg [OF assms, of "CHR ''W''"] fill_connect_msg_length [OF assms(1)]
  by (auto simp: bind_res_Inr_iff welcomed_def)

section \<open>The properties\<close>

text \<open>
  Introduction to the proxy. For every endpoint libzmq can report, the proxy's setup
  goes through, it releases both sockets before it terminates the context, and a peer, with
  whatever options and in whatever state, that receives the welcome message connects its
  proxy socket to just that endpoint and stays in its loop.
\<close>

theorem proxy_welcomes_peers:
  assumes "length mem = connect_msg_size" "sendable u ep" "cstr_in sub = Inr ep"
  shows "\<exists>calls msg. proxy_main mem u sub = Inr calls \<and> track calls [] = Some []
    \<and> Setsockopt backend (Xpub_Welcome_Msg msg) \<in> set calls
    \<and> (\<forall>p s t st. proxy_ready t \<and> proxy_frame t = Some msg \<and> length (mem_recv t) = connect_msg_size \<longrightarrow>
         handle_proxy p s t st = Inr (st, [Recv proxySub False, Connect proxyPub ep], False))"
proof -
  obtain msg where msg: "fill_connect_msg mem CHR ''W'' u ep = Inr msg" "welcomed ep msg"
    using welcome_msg [OF assms(1,2)] by blast
  obtain m where m: "read_connect_msg msg = Inr m" "command m = CHR ''W''" "endpoint m = ep"
      "length msg = connect_msg_size"
    using msg(2) by (auto simp: welcomed_def split: sum.splits)
  have peer: "handle_proxy p s t st = Inr (st, [Recv proxySub False, Connect proxyPub ep], False)"
    if "proxy_ready t" "proxy_frame t = Some msg" "length (mem_recv t) = connect_msg_size" for p s t st
    using peer_takes_welcome [OF that(1,2) _ m(1,2)] that(3) m by simp
  then show ?thesis by (simp add: proxy_main_def assms(3) msg(1))
qed

lemma sendable_demo: "sendable ''p'' ''tcp://9''"
  by (simp add: sendable_def layout_defs)

theorem proxy_welcomes_peers_witness:
  "\<exists>calls msg. proxy_main zeros ''p'' (''tcp://9'' @ replicate 250 NUL) = Inr calls \<and> track calls [] = Some []
    \<and> Setsockopt backend (Xpub_Welcome_Msg msg) \<in> set calls"
proof -
  have "cstr_in (''tcp://9'' @ NUL # replicate 249 NUL) = Inr ''tcp://9''"
    by (rule cstr_in_terminated) simp
  moreover have "replicate 250 NUL = NUL # replicate 249 NUL"
    using replicate_Suc [of 249 NUL] by simp
  ultimately show ?thesis
    using proxy_welcomes_peers [OF length_zeros sendable_demo, of "''tcp://9'' @ replicate 250 NUL"] by auto
qed

text \<open>
  The reconnect proxy does the same when its address fits the array, for which the
  second endpoint, with its longer port, decides: otherwise it overruns the array.
\<close>

theorem reconnect_proxy_fits:
  assumes "length mem = connect_msg_size" "sendable u ep" "cstr_in sub = Inr ep"
  shows "if length (the (tcpAddr rp)) \<le> ZMQ_MAX_ENDPOINT_LENGTH - 11
    then \<exists>calls msg. reconnect_proxy_main rp mem u sub = Inr calls \<and> track calls [] = Some []
           \<and> Setsockopt backend (Xpub_Welcome_Msg msg) \<in> set calls \<and> welcomed ep msg
    else reconnect_proxy_main rp mem u sub = Inl Buffer_Overflow"
proof -
  obtain msg where msg: "fill_connect_msg mem CHR ''W'' u ep = Inr msg" "welcomed ep msg"
    using welcome_msg [OF assms(1,2)] by blast
  then show ?thesis
    by (auto simp: reconnect_proxy_main_def assms(3) sprintf_buf_def ZMQ_MAX_ENDPOINT_LENGTH_def)
qed

theorem reconnect_proxy_fits_witness:
  "reconnect_proxy_main (reconnect_params_init\<lparr>tcpAddr := Some (replicate 246 CHR ''1'')\<rparr>) zeros ''p''
     (''tcp://9'' @ NUL # []) = Inl Buffer_Overflow"
proof -
  have "cstr_in (''tcp://9'' @ NUL # []) = Inr ''tcp://9''" by (rule cstr_in_terminated) simp
  from reconnect_proxy_fits [OF length_zeros sendable_demo this,
      of "reconnect_params_init\<lparr>tcpAddr := Some (replicate 246 CHR ''1'')\<rparr>"]
  show ?thesis by (simp add: ZMQ_MAX_ENDPOINT_LENGTH_def)
qed

end
