(* ===== verification/Pingpong.thy ===== *)
theory Pingpong
  imports Params Wire Event_Loop
begin

section \<open>The latency test, pingpong/ping.cpp and pingpong/pong.cpp\<close>

text \<open>
  \<^verbatim>\<open>ping\<close> publishes a request and waits for two answers, an acknowledgement and a response;
  \<^verbatim>\<open>pong\<close> answers each request with the two. Both open a pair of control sockets that take
  part in polling only.
\<close>

abbreviation ping_pub :: handle where "ping_pub \<equiv> Var ''pub''"
abbreviation ping_sub :: handle where "ping_sub \<equiv> Var ''sub''"
abbreviation controlSub :: handle where "controlSub \<equiv> Var ''controlSub''"
abbreviation controlPub :: handle where "controlPub \<equiv> Var ''controlPub''"

subsection \<open>The message\<close>

text \<open>
  \<^verbatim>\<open>requestMsg\<close> is an array of 256 characters for the topic and one for the type. The
  comparison of the type with a literal stops at the first difference or at the literal's
  terminator, so it stays inside the array.
\<close>

definition request_field :: nat where
  "request_field = 256"

definition request_size :: nat where
  "request_size = request_field + request_field"

definition set_type :: "string \<Rightarrow> string \<Rightarrow> fault + string" where
  "set_type buf s =
     bind_res (strcpy_buf (drop request_field buf) s) (\<lambda>y. Inr (take request_field buf @ y))"

definition request_msg :: "string \<Rightarrow> fault + string" where
  "request_msg mem =
     bind_res (strcpy_buf (take request_field mem) ''TOPIC'') (\<lambda>t. set_type (t @ drop request_field mem) ''request'')"

definition type_is :: "string \<Rightarrow> string \<Rightarrow> bool" where
  "type_is buf s \<longleftrightarrow> take (length s + 1) (drop request_field buf) = s @ [NUL]"

definition fill_recv :: "string \<Rightarrow> string option \<Rightarrow> string" where
  "fill_recv buf frame = (case frame of None \<Rightarrow> buf | Some bs \<Rightarrow> fill_buf buf bs)"

definition poll_first :: "pingpong_params \<Rightarrow> string zcall list" where
  "poll_first pp =
     (if pp_pollFlag pp then [Poll (if controlFlag pp then [ping_sub, controlSub] else [ping_sub]) (-1)] else [])"

subsection \<open>ping\<close>

record ping_input =
  ping_mem :: string
  ack_frame :: "string option"
  response_frame :: "string option"

definition ping_iter :: "pingpong_params \<Rightarrow> (ping_input, int, string zcall, fault) iteration" where
  "ping_iter pp i n =
     (let requestNum = n + 1 in
      if requestNum < numRequests pp then
        bind_res (request_msg (ping_mem i)) (\<lambda>req.
        let ack = fill_recv req (ack_frame i) in
        bind_res (require (type_is ack ''ack'') Assert_Failed) (\<lambda>_.
        let resp = fill_recv ack (response_frame i) in
        bind_res (require (type_is resp ''response'') Assert_Failed) (\<lambda>_.
          Inr (requestNum,
               [Send ping_pub req False] @ poll_first pp @ [Recv ping_sub False]
               @ poll_first pp @ [Recv ping_sub False], False))))
      else Inr (requestNum, [], True))"

definition ping_setup :: "string returns \<Rightarrow> pingpong_params \<Rightarrow> fault + string zcall list" where
  "ping_setup ret pp = stmts
     [Inr [Ctx_New],
      assert_nonnull ret (Socket controlSub ZMQ_SERVER),
      CALL_INT_FUNC (Bind controlSub ''inproc://monitor''),
      assert_nonnull ret (Socket controlPub ZMQ_CLIENT),
      CALL_INT_FUNC (Connect controlPub ''inproc://monitor''),
      assert_nonnull ret (Socket ping_pub ZMQ_PUB),
      CALL_INT_FUNC (Bind ping_pub (''tcp://127.0.0.1:'' @ dec_of (pingPort pp))),
      assert_nonnull ret (Socket ping_sub ZMQ_SUB),
      CALL_INT_FUNC (Setsockopt ping_sub (Subscribe [])),
      CALL_INT_FUNC (Connect ping_sub (''tcp://127.0.0.1:'' @ dec_of (pongPort pp))),
      Inr [Sleep 1],
      CALL_INT_FUNC (Getsockopt ping_pub Events)]"

definition pingpong_close :: "string zcall list" where
  "pingpong_close =
     [Close ping_pub, Close ping_sub, Close controlSub, Close controlPub, Ctx_Shutdown, Ctx_Term]"

text \<open>C's division of integers rounds towards zero.\<close>

definition c_div :: "int \<Rightarrow> int \<Rightarrow> int" where
  "c_div a b = sgn a * sgn b * (\<bar>a\<bar> div \<bar>b\<bar>)"

text \<open>
  The result of \<open>ping_main\<close> is the calls made and the average latency printed, \<open>None\<close> while
  it is in its loop. \<open>start\<close> and \<open>end\<close> are the microseconds read around the loop.
\<close>

definition ping_main ::
  "string returns \<Rightarrow> pingpong_params \<Rightarrow> int \<Rightarrow> int \<Rightarrow> ping_input list \<Rightarrow> fault + string zcall list \<times> int option" where
  "ping_main ret pp start end inputs =
     bind_res (ping_setup ret pp) (\<lambda>opened.
     bind_res (run_loop (ping_iter pp) inputs 0) (\<lambda>(_, acts, stopped).
       if \<not> stopped then Inr (opened @ acts, None)
       else if numRequests pp = 0 then Inl Div_By_Zero
       else Inr (opened @ acts @ pingpong_close,
                 Some (signed_take_bit 31 (c_div (end - start) (numRequests pp))))))"

subsection \<open>pong\<close>

definition pong_iter :: "pingpong_params \<Rightarrow> (string \<times> string option, unit, string zcall, fault) iteration" where
  "pong_iter pp i s =
     (case i of (mem, frame) \<Rightarrow>
        let req = fill_recv mem frame in
        bind_res (require (type_is req ''request'') Assert_Failed) (\<lambda>_.
        bind_res (set_type req ''ack'') (\<lambda>ack.
        bind_res (set_type ack ''response'') (\<lambda>resp.
          Inr (s, poll_first pp @ [Recv ping_sub (pp_pollFlag pp), Send ping_pub ack True, Send ping_pub resp True],
               False)))))"

definition pong_setup :: "string returns \<Rightarrow> pingpong_params \<Rightarrow> fault + string zcall list" where
  "pong_setup ret pp = stmts
     [Inr [Ctx_New],
      assert_nonnull ret (Socket controlSub ZMQ_SERVER),
      CALL_INT_FUNC (Bind controlSub ''inproc://monitor''),
      assert_nonnull ret (Socket controlPub ZMQ_CLIENT),
      CALL_INT_FUNC (Connect controlPub ''inproc://monitor''),
      Inr [Socket ping_pub ZMQ_PUB],
      CALL_INT_FUNC (Bind ping_pub (''tcp://127.0.0.1:'' @ dec_of (pongPort pp))),
      Inr [Socket ping_sub ZMQ_SUB],
      CALL_INT_FUNC (Setsockopt ping_sub (Subscribe [])),
      CALL_INT_FUNC (Connect ping_sub (''tcp://127.0.0.1:'' @ dec_of (pingPort pp)))]"

definition pong_main ::
  "string returns \<Rightarrow> pingpong_params \<Rightarrow> (string \<times> string option) list \<Rightarrow> fault + string zcall list \<times> bool" where
  "pong_main ret pp inputs =
     bind_res (pong_setup ret pp) (\<lambda>opened.
     bind_res (run_loop (pong_iter pp) inputs ()) (\<lambda>(_, acts, stopped).
       if stopped then Inr (opened @ acts @ pingpong_close, True) else Inr (opened @ acts, False)))"

section \<open>Facts about the latency test\<close>

lemma type_is_set_type:
  assumes "length buf = request_size" "length s < request_field" "no_nul s"
  shows "\<exists>buf'. set_type buf s = Inr buf' \<and> length buf' = request_size \<and> (\<forall>s'. no_nul s' \<longrightarrow> type_is buf' s' = (s' = s))"
proof -
  let ?y = "s @ NUL # drop (Suc (length s)) (drop request_field buf)"
  have set: "set_type buf s = Inr (take request_field buf @ ?y)"
    using assms by (simp add: set_type_def strcpy_buf_def request_size_def)
  have "type_is (take request_field buf @ ?y) s' = (s' = s)" if "no_nul s'" for s'
  proof
    assume "type_is (take request_field buf @ ?y) s'"
    then have "take (Suc (length s')) ?y = s' @ [NUL]"
      using assms(1) by (simp add: type_is_def request_size_def)
    then have pre: "?y = s' @ NUL # drop (Suc (length s')) ?y"
      by (metis append.assoc append_Cons append_Nil append_take_drop_id)
    have "takeWhile (\<lambda>c. c \<noteq> NUL) ?y = s" using assms(3) by simp
    moreover have "takeWhile (\<lambda>c. c \<noteq> NUL) ?y = s'" using that by (subst pre) simp
    ultimately show "s' = s" by simp
  next
    assume "s' = s"
    then show "type_is (take request_field buf @ ?y) s'"
      using assms(1) by (simp add: type_is_def request_size_def)
  qed
  moreover have "length (take request_field buf @ ?y) = request_size"
    using assms(1,2) by (simp add: request_size_def)
  ultimately show ?thesis using set by blast
qed

lemma request_msg_ok:
  assumes "length mem = request_size"
  shows "\<exists>req. request_msg mem = Inr req \<and> length req = request_size \<and> type_is req ''request''"
proof -
  let ?t = "''TOPIC'' @ NUL # drop (Suc (length ''TOPIC'')) (take request_field mem)"
  have "strcpy_buf (take request_field mem) ''TOPIC'' = Inr ?t"
    using assms by (simp add: strcpy_buf_def request_size_def request_field_def)
  moreover have "length (?t @ drop request_field mem) = request_size"
    using assms by (simp add: request_size_def request_field_def)
  with type_is_set_type [of "?t @ drop request_field mem" "''request''"]
  have "\<exists>req. set_type (?t @ drop request_field mem) ''request'' = Inr req \<and> length req = request_size
      \<and> type_is req ''request''"
    by (fastforce simp: request_field_def)
  ultimately show ?thesis by (auto simp: request_msg_def)
qed

text \<open>A receive that delivers a whole message leaves that message in the buffer.\<close>

lemma fill_recv_whole: "length buf = length bs \<Longrightarrow> fill_recv buf (Some bs) = bs"
  by (simp add: fill_recv_def fill_buf_def)

lemma pong_answers:
  assumes "length mem = request_size" "length req = request_size" "type_is req ''request''"
  shows "\<exists>acts ack resp. pong_iter pp (mem, Some req) () = Inr ((), acts, False)
    \<and> sends_on ping_pub acts = [Send ping_pub ack True, Send ping_pub resp True]
    \<and> length ack = request_size \<and> type_is ack ''ack'' \<and> length resp = request_size \<and> type_is resp ''response''"
proof -
  obtain ack where ack: "set_type req ''ack'' = Inr ack" "length ack = request_size" "type_is ack ''ack''"
    using type_is_set_type [OF assms(2), of "''ack''"] by (fastforce simp: request_field_def)
  obtain resp where resp: "set_type ack ''response'' = Inr resp" "length resp = request_size" "type_is resp ''response''"
    using type_is_set_type [OF ack(2), of "''response''"] by (fastforce simp: request_field_def)
  have "fill_recv mem (Some req) = req" using assms by (simp add: fill_recv_whole)
  with ack resp assms(3) show ?thesis
    by (simp add: pong_iter_def poll_first_def)
qed

text \<open>
  \<open>answered pp pm i\<close>: the input \<open>i\<close> of a round of ping is what a round of pong, with
  parameters \<open>pp\<close> and stack \<open>pm\<close>, sends on receiving the request of that round.
\<close>

definition answered :: "pingpong_params \<Rightarrow> string \<Rightarrow> ping_input \<Rightarrow> bool" where
  "answered pp pm i \<longleftrightarrow>
     length (ping_mem i) = request_size \<and> length pm = request_size
     \<and> (case request_msg (ping_mem i) of
          Inl _ \<Rightarrow> False
        | Inr req \<Rightarrow>
            (case pong_iter pp (pm, Some req) () of
               Inl _ \<Rightarrow> False
             | Inr (_, acts, _) \<Rightarrow>
                 (case sends_on ping_pub acts of
                    [Send _ ack _, Send _ resp _] \<Rightarrow> ack_frame i = Some ack \<and> response_frame i = Some resp
                  | _ \<Rightarrow> False)))"

lemma ping_round:
  assumes "answered pp' pm i" "n + 1 < numRequests pp"
  shows "\<exists>acts req. ping_iter pp i n = Inr (n + 1, acts, False)
    \<and> sends_on ping_pub acts = [Send ping_pub req False] \<and> type_is req ''request''"
proof -
  have lens: "length (ping_mem i) = request_size" "length pm = request_size"
    using assms(1) by (auto simp: answered_def)
  obtain req where req: "request_msg (ping_mem i) = Inr req" "length req = request_size" "type_is req ''request''"
    using request_msg_ok [OF lens(1)] by blast
  obtain acts ack resp where pong: "pong_iter pp' (pm, Some req) () = Inr ((), acts, False)"
    "sends_on ping_pub acts = [Send ping_pub ack True, Send ping_pub resp True]"
    and ack: "length ack = request_size" "type_is ack ''ack''"
    and resp: "length resp = request_size" "type_is resp ''response''"
    using pong_answers [OF lens(2) req(2,3)] by blast
  from assms(1) req(1) pong have frames: "ack_frame i = Some ack" "response_frame i = Some resp"
    by (auto simp: answered_def)
  from req ack resp have "fill_recv req (Some ack) = ack" "fill_recv ack (Some resp) = resp"
    by (simp_all add: fill_recv_whole)
  with req ack resp frames assms(2) show ?thesis
    by (simp add: ping_iter_def Let_def poll_first_def)
qed

lemma ping_run:
  assumes "list_all (\<lambda>i. \<exists>pm. answered pp' pm i) is" "n + int (length is) \<ge> max (n + 1) (numRequests pp)"
  shows "\<exists>acts. run_loop (ping_iter pp) is n = Inr (max (n + 1) (numRequests pp), acts, True)
    \<and> length (sends_on ping_pub acts) = nat (numRequests pp - (n + 1))"
  using assms
proof (induction "is" arbitrary: n)
  case Nil
  then show ?case by simp
next
  case (Cons i "is")
  show ?case
  proof (cases "n + 1 < numRequests pp")
    case True
    from Cons.prems(1) obtain pm where "answered pp' pm i" by auto
    from ping_round [OF this True] obtain acts req where it: "ping_iter pp i n = Inr (n + 1, acts, False)"
      "sends_on ping_pub acts = [Send ping_pub req False]" by blast
    have "list_all (\<lambda>i. \<exists>pm. answered pp' pm i) is" "n + 1 + int (length is) \<ge> max (n + 1 + 1) (numRequests pp)"
      using Cons.prems True by auto
    from Cons.IH [OF this] obtain bs where
      "run_loop (ping_iter pp) is (n + 1) = Inr (max (n + 1 + 1) (numRequests pp), bs, True)"
      "length (sends_on ping_pub bs) = nat (numRequests pp - (n + 1 + 1))" by blast
    with it True show ?thesis by (simp add: nat_diff_distrib max_def)
  next
    case False
    then have "ping_iter pp i n = Inr (n + 1, [], True)" by (simp add: ping_iter_def Let_def)
    with False show ?thesis by (simp add: max_def)
  qed
qed

lemma ping_setup_ok:
  assumes "all_succeed length ret"
  shows "\<exists>cs. ping_setup ret pp = Inr cs \<and> track cs [] = Some [ping_sub, ping_pub, controlPub, controlSub]"
  by (simp add: ping_setup_def CALL_INT_FUNC_def assert_succeeds [OF assms])

interpretation ping_calls: traced_loop "ping_iter pp" "\<lambda>_. True"
  "\<lambda>(h :: string zcall list) (_ :: int). list_all (\<lambda>c. neutral c \<and> set (uses c) \<subseteq> {ping_sub, ping_pub, controlPub, controlSub}) h"
proof unfold_locales
  fix h acts :: "string zcall list" and st i st' stop
  assume "list_all (\<lambda>c. neutral c \<and> set (uses c) \<subseteq> {ping_sub, ping_pub, controlPub, controlSub}) h"
    "ping_iter pp i st = Inr (st', acts, stop)"
  then show "list_all (\<lambda>c. neutral c \<and> set (uses c) \<subseteq> {ping_sub, ping_pub, controlPub, controlSub}) (h @ acts)"
    by (auto simp: ping_iter_def Let_def bind_res_Inr_iff poll_first_def split: if_splits)
qed

lemma pong_iter_goes_on: "pong_iter pp i s \<noteq> Inr (s', acts, True)"
  by (auto simp: pong_iter_def bind_res_Inr_iff Let_def split: prod.splits)

section \<open>The properties\<close>

text \<open>
  The dialogue. When each request of ping is answered by a round of pong, whatever the
  two stacks held before and whichever options each side was given, no assertion on the
  message types fails and ping leaves its loop, having sent one request less than the number
  it was asked for, none when that is 0 or negative.
\<close>

theorem ping_pong_dialogue:
  assumes "list_all (\<lambda>i. \<exists>pm. answered pp' pm i) inputs" "int (length inputs) \<ge> max 1 (numRequests pp)"
  shows "\<exists>acts. run_loop (ping_iter pp) inputs 0 = Inr (max 1 (numRequests pp), acts, True)
    \<and> length (sends_on ping_pub acts) = nat (numRequests pp - 1)"
  using ping_run [OF assms(1), of 0 pp] assms(2) by simp

text \<open>The answers to a request made on a stack of zeros, and a round of ping that gets them.\<close>

definition demo_answers :: "string \<times> string" where
  "demo_answers =
     (case bind_res (request_msg (replicate request_size NUL)) (\<lambda>req. bind_res (set_type req ''ack'') (\<lambda>ack.
             bind_res (set_type ack ''response'') (\<lambda>resp. Inr (ack, resp)))) of
        Inl _ \<Rightarrow> ([], []) | Inr r \<Rightarrow> r)"

definition demo_round :: ping_input where
  "demo_round = \<lparr>ping_mem = replicate request_size NUL,
     ack_frame = Some (fst demo_answers), response_frame = Some (snd demo_answers)\<rparr>"

lemma demo_round_answered: "answered pingpong_params_init (replicate request_size NUL) demo_round"
proof -
  let ?z = "replicate request_size NUL"
  obtain req where req: "request_msg ?z = Inr req" "length req = request_size" "type_is req ''request''"
    using request_msg_ok [of ?z] by auto
  obtain ack where ack: "set_type req ''ack'' = Inr ack" "length ack = request_size"
    using type_is_set_type [OF req(2), of "''ack''"] by (fastforce simp: request_field_def)
  obtain resp where resp: "set_type ack ''response'' = Inr resp" "length resp = request_size"
    using type_is_set_type [OF ack(2), of "''response''"] by (fastforce simp: request_field_def)
  have eq: "demo_answers = (ack, resp)" by (simp add: demo_answers_def req ack resp)
  have recv: "fill_recv ?z (Some req) = req" using req by (simp add: fill_recv_whole)
  show ?thesis
    by (simp add: answered_def demo_round_def req ack resp pong_iter_def poll_first_def recv)
      (simp add: eq)
qed

theorem ping_pong_dialogue_witness:
  "\<exists>acts. run_loop (ping_iter (pingpong_params_init\<lparr>numRequests := 3\<rparr>)) [demo_round, demo_round, demo_round] 0
      = Inr (3, acts, True) \<and> length (sends_on ping_pub acts) = 2"
  using ping_pong_dialogue [of pingpong_params_init "[demo_round, demo_round, demo_round]"
      "pingpong_params_init\<lparr>numRequests := 3\<rparr>"] demo_round_answered
  by auto

text \<open>
  C40. The whole program. Under the same conditions, when the calls of libzmq succeed, ping
  releases its sockets and prints the elapsed time divided by the number it was asked
  for, which is not the number of requests it made; asked for no request, it divides by zero.
\<close>

theorem ping_latency:
  assumes "all_succeed length ret" "list_all (\<lambda>i. \<exists>pm. answered pp' pm i) inputs"
    and "int (length inputs) \<ge> max 1 (numRequests pp)"
  shows "if numRequests pp = 0 then ping_main ret pp start end inputs = Inl Div_By_Zero
    else \<exists>calls. ping_main ret pp start end inputs
           = Inr (calls, Some (signed_take_bit 31 (c_div (end - start) (numRequests pp))))
         \<and> track calls [] = Some [] \<and> length (sends_on ping_pub calls) = nat (numRequests pp - 1)"
proof -
  let ?hs = "[ping_sub, ping_pub, controlPub, controlSub]"
  obtain cs where cs: "ping_setup ret pp = Inr cs" "track cs [] = Some ?hs" "sends_on ping_pub cs = []"
    by (simp add: ping_setup_def CALL_INT_FUNC_def assert_succeeds [OF assms(1)] sends_on_def)
  obtain acts where run: "run_loop (ping_iter pp) inputs 0 = Inr (max 1 (numRequests pp), acts, True)"
    "length (sends_on ping_pub acts) = nat (numRequests pp - 1)"
    using ping_run [OF assms(2), of 0 pp] assms(3) by auto
  have "list_all (\<lambda>c. neutral c \<and> set (uses c) \<subseteq> set ?hs) acts"
    using ping_calls.good_run [OF _ _ run(1), of "[]"] by (simp add: list_all_iff)
  then have "track acts ?hs = Some ?hs" by (intro track_neutral) (auto simp: list_all_iff)
  with cs run show ?thesis
    by (simp add: ping_main_def track_append pingpong_close_def) (simp add: sends_on_def)
qed

theorem ping_latency_witness:
  "ping_main (ret_success length) (pingpong_params_init\<lparr>numRequests := 0\<rparr>) 5 9 [demo_round] = Inl Div_By_Zero
   \<and> (\<exists>calls. ping_main (ret_success length) (pingpong_params_init\<lparr>numRequests := 2\<rparr>) 0 100 [demo_round, demo_round]
       = Inr (calls, Some 50) \<and> length (sends_on ping_pub calls) = 1)"
proof
  have ans: "list_all (\<lambda>i. \<exists>pm. answered pingpong_params_init pm i) [demo_round]"
    "list_all (\<lambda>i. \<exists>pm. answered pingpong_params_init pm i) [demo_round, demo_round]"
    using demo_round_answered by auto
  show "ping_main (ret_success length) (pingpong_params_init\<lparr>numRequests := 0\<rparr>) 5 9 [demo_round] = Inl Div_By_Zero"
    using ping_latency [OF all_succeed_ret_success ans(1), of "pingpong_params_init\<lparr>numRequests := 0\<rparr>" 5 9] by simp
  have "signed_take_bit 31 (c_div 100 2) = 50" by (simp add: c_div_def signed_take_bit_int_eq_self_iff)
  then show "\<exists>calls. ping_main (ret_success length) (pingpong_params_init\<lparr>numRequests := 2\<rparr>) 0 100 [demo_round, demo_round]
       = Inr (calls, Some 50) \<and> length (sends_on ping_pub calls) = 1"
    using ping_latency [OF all_succeed_ret_success ans(2), of "pingpong_params_init\<lparr>numRequests := 2\<rparr>" 0 100] by auto
qed

text \<open>
  pong never leaves its loop: its sockets are never closed.
\<close>

theorem pong_never_ends: "pong_main ret pp inputs \<noteq> Inr (calls, True)"
  by (auto simp: pong_main_def bind_res_Inr_iff split: if_splits
      dest: run_loop_never_stops [OF pong_iter_goes_on, THEN notE])

end
