(* ===== verification/Discovery.thy ===== *)
theory Discovery
  imports Proxy
begin

section \<open>Peers and proxy together\<close>

text \<open>
  Any number of peers (3186/peer.cpp) around one proxy (3186/proxy.c), as a step relation in
  which their rounds interleave freely. What libzmq contributes is fixed as follows. A
  subscriber's first message is the proxy's welcome message. The proxy hands every message
  it gets to every peer that has subscribed by then, and all in the same order. What a
  peer publishes before its connection to the proxy is up (some time after the connect
  call) is lost; what it publishes afterwards reaches the proxy. The clock does not go
  backwards. Each peer runs the model of its main loop, \<open>peer_iter\<close>, and reads the bytes of
  the messages waiting for it.
\<close>

record node =
  opts :: params
  who :: self
  deadline :: int
  pstate :: peer_state
  inbox :: "connect_msg list"
  dialled :: bool
  linked_up :: bool
  gone :: bool

record disc =
  nodes :: "node list"
  clock :: int

definition uid :: "node \<Rightarrow> string" where
  "uid n = theUuid (who n)"

definition disc_init :: "int \<Rightarrow> disc" where
  "disc_init c = \<lparr>nodes = [], clock = c\<rparr>"

datatype disc_event = Join params self int | Link_Up string | Round string tick

text \<open>A round's inputs: memory of the right size, and if the proxy socket is ready, the first message waiting.\<close>

definition fits_tick :: "connect_msg list \<Rightarrow> tick \<Rightarrow> bool" where
  "fits_tick ms t \<longleftrightarrow>
     length (mem_bye t) = connect_msg_size \<and> length (mem_hello t) = connect_msg_size
     \<and> length (mem_reply t) = connect_msg_size
     \<and> (if proxy_ready t then (case ms of [] \<Rightarrow> False | m # _ \<Rightarrow> read_connect_msg (received t) = Inr m)
        else True)"

text \<open>The messages among the calls of a round, and whether it connected \<^verbatim>\<open>proxyPub\<close>.\<close>

definition said :: "string zcall list \<Rightarrow> connect_msg list" where
  "said acts = concat (map (\<lambda>c. case reads c of Inl _ \<Rightarrow> [] | Inr m \<Rightarrow> [m]) (sends_on proxyPub acts))"

definition dials :: "string zcall list \<Rightarrow> bool" where
  "dials acts = list_ex (\<lambda>c. case c of Connect h e \<Rightarrow> h = proxyPub | _ \<Rightarrow> False) acts"

definition round_of :: "disc \<Rightarrow> node \<Rightarrow> tick \<Rightarrow> disc option" where
  "round_of S x t =
     (if gone x \<or> now t < clock S \<or> \<not> fits_tick (inbox x) t then None
      else case peer_iter (opts x) (who x) (deadline x) t (pstate x) of
          Inl _ \<Rightarrow> None
        | Inr (st', acts, stop) \<Rightarrow>
            let out = (if linked_up x then said acts else []);
                x' = x\<lparr>pstate := st', inbox := (if proxy_ready t then tl (inbox x) else inbox x),
                       dialled := dialled x \<or> dials acts, gone := stop\<rparr>
            in Some \<lparr>nodes = map (\<lambda>n. let n' = (if uid n = uid x then x' else n)
                                      in n'\<lparr>inbox := inbox n' @ out\<rparr>) (nodes S),
                     clock = now t\<rparr>)"

definition link_node :: "string \<Rightarrow> node \<Rightarrow> node" where
  "link_node u n = (if uid n = u \<and> dialled n then n\<lparr>linked_up := True\<rparr> else n)"

fun disc_step :: "connect_msg \<Rightarrow> disc_event \<Rightarrow> disc \<Rightarrow> disc option" where
  "disc_step w (Join p s end) S =
     (if theUuid s \<in> set (map uid (nodes S)) then None
      else Some (S\<lparr>nodes := nodes S @ [\<lparr>opts = p, who = s, deadline = end, pstate = no_peers,
        inbox = [w], dialled = False, linked_up = False, gone = False\<rparr>]\<rparr>))"
| "disc_step w (Link_Up u) S =
     Some (S\<lparr>nodes := map (link_node u) (nodes S)\<rparr>)"
| "disc_step w (Round u t) S =
     (case List.find (\<lambda>n. uid n = u) (nodes S) of None \<Rightarrow> None | Some x \<Rightarrow> round_of S x t)"

inductive discovery :: "connect_msg \<Rightarrow> disc \<Rightarrow> bool" for w where
  start: "discovery w (disc_init c)"
| join: "discovery w S \<Longrightarrow> self_ok s \<Longrightarrow> disc_step w (Join p s end) S = Some S' \<Longrightarrow> discovery w S'"
| link_up: "discovery w S \<Longrightarrow> disc_step w (Link_Up u) S = Some S' \<Longrightarrow> discovery w S'"
| round: "discovery w S \<Longrightarrow> disc_step w (Round u t) S = Some S' \<Longrightarrow> discovery w S'"

section \<open>One round\<close>

definition say :: "node \<Rightarrow> char \<Rightarrow> connect_msg" where
  "say x c = \<lparr>command = c, uuid = uid x, endpoint = pubEndpoint (who x)\<rparr>"

text \<open>What a peer knows once it will have read its messages, and whether its time is up.\<close>

definition heard :: "node \<Rightarrow> string \<rightharpoonup> string" where
  "heard n = fold member_step (inbox n) (map_of (peers (pstate n)))"

definition late :: "int \<Rightarrow> node \<Rightarrow> bool" where
  "late c n \<longleftrightarrow> deadline n > 0 \<and> c > deadline n"

abbreviation knows :: "node \<Rightarrow> string \<Rightarrow> bool" where
  "knows n u \<equiv> map_of (peers (pstate n)) u \<noteq> None"

lemma fits_tick_ok: "fits_tick ms t \<Longrightarrow> tick_ok t"
  by (auto simp: fits_tick_def tick_ok_def split: if_splits list.splits)

lemma fits_tick_msg:
  "fits_tick ms t \<Longrightarrow> tick_msg t = (if proxy_ready t then Some (hd ms) else None) \<and> (proxy_ready t \<longrightarrow> ms \<noteq> [])"
  by (auto simp: fits_tick_def tick_msg_def split: if_splits list.splits)

lemma said_eq: "map reads (sends_on proxyPub acts) = map (\<lambda>c. Inr (f c)) cs \<Longrightarrow> said acts = map f cs"
proof -
  assume "map reads (sends_on proxyPub acts) = map (\<lambda>c. Inr (f c)) cs"
  then have "concat (map (\<lambda>r. case r of Inl _ \<Rightarrow> [] | Inr m \<Rightarrow> [m]) (map reads (sends_on proxyPub acts))) = map f cs"
    by (simp add: o_def)
  then show ?thesis by (simp add: said_def o_def)
qed

lemma fold_say_other: "u \<noteq> uid x \<Longrightarrow> fold member_step (map (say x) cs) M u = M u"
  by (induction cs arbitrary: M) (simp_all add: member_step_def say_def)

lemma fold_say_value:
  "fold member_step (map (say x) cs) M u = Some e \<Longrightarrow> M u = Some e \<or> u = uid x \<and> e = pubEndpoint (who x)"
proof (induction cs arbitrary: M)
  case Nil
  then show ?case by simp
next
  case (Cons c cs)
  then have "fold member_step (map (say x) cs) (member_step (say x c) M) u = Some e" by simp
  from Cons.IH [OF this] show ?case by (auto simp: member_step_def say_def split: if_splits)
qed

lemma fold_say_connects:
  "set cs \<subseteq> {CHR ''C''} \<Longrightarrow> M (uid x) \<noteq> None \<or> cs \<noteq> [] \<Longrightarrow> fold member_step (map (say x) cs) M (uid x) \<noteq> None"
proof (induction cs arbitrary: M)
  case Nil
  then show ?case by simp
next
  case (Cons c cs)
  have "member_step (say x c) M (uid x) \<noteq> None" using Cons.prems(1) by (simp add: member_step_def say_def)
  with Cons.IH [of "member_step (say x c) M"] Cons.prems(1) show ?case by simp
qed

text \<open>A round as the rest of the proof sees it.\<close>

definition take_round :: "node \<Rightarrow> node \<Rightarrow> string \<Rightarrow> node \<Rightarrow> node" where
  "take_round x x' cmds n =
     (let n' = (if uid n = uid x then x' else n) in n'\<lparr>inbox := inbox n' @ map (say x) cmds\<rparr>)"

lemma take_round_simps [simp]:
  "who (take_round x x' cmds n) = who (if uid n = uid x then x' else n)"
  "opts (take_round x x' cmds n) = opts (if uid n = uid x then x' else n)"
  "deadline (take_round x x' cmds n) = deadline (if uid n = uid x then x' else n)"
  "pstate (take_round x x' cmds n) = pstate (if uid n = uid x then x' else n)"
  "inbox (take_round x x' cmds n) = inbox (if uid n = uid x then x' else n) @ map (say x) cmds"
  "linked_up (take_round x x' cmds n) = linked_up (if uid n = uid x then x' else n)"
  "gone (take_round x x' cmds n) = gone (if uid n = uid x then x' else n)"
  by (simp_all add: take_round_def Let_def)

lemma heard_take_round:
  "heard (take_round x x' cmds n) = fold member_step (map (say x) cmds) (heard (if uid n = uid x then x' else n))"
  by (simp add: heard_def)

lemma fold_take_head: "ms \<noteq> [] \<Longrightarrow> fold member_step (tl ms) (member_step (hd ms) M) = fold member_step ms M"
  by (cases ms) auto

lemma expired_late: "expired (deadline x) t \<longleftrightarrow> late (now t) x"
  by (simp add: expired_def late_def)

lemma round_ofE:
  assumes "round_of S x t = Some S'" "self_ok (who x)" "sm_wf (peers (pstate x))"
  obtains x' cs st' acts stop where
    "cs = (if linked_up x then round_commands (opts x) (who x) (deadline x) t (map_of (peers (pstate x))) else [])"
    "peer_iter (opts x) (who x) (deadline x) t (pstate x) = Inr (st', acts, stop)"
    "S' = \<lparr>nodes = map (take_round x x' cs) (nodes S), clock = now t\<rparr>"
    "x' = x\<lparr>pstate := st', inbox := (if proxy_ready t then tl (inbox x) else inbox x),
            dialled := dialled x \<or> dials acts, gone := stop\<rparr>"
    "\<not> gone x" "clock S \<le> now t" "fits_tick (inbox x) t"
proof -
  from assms(1) have g: "\<not> gone x" "clock S \<le> now t" "fits_tick (inbox x) t"
    by (auto simp: round_of_def split: if_splits)
  then obtain st' acts stop where it: "peer_iter (opts x) (who x) (deadline x) t (pstate x) = Inr (st', acts, stop)"
    using assms(1) by (auto simp: round_of_def split: if_splits sum.splits)
  let ?cs = "round_commands (opts x) (who x) (deadline x) t (map_of (peers (pstate x)))"
  let ?cs' = "if linked_up x then ?cs else []"
  let ?x' = "x\<lparr>pstate := st', inbox := (if proxy_ready t then tl (inbox x) else inbox x),
            dialled := dialled x \<or> dials acts, gone := stop\<rparr>"
  have "said acts = map (say x) ?cs"
    using said_eq [OF peer_iter_commands [OF assms(2) fits_tick_ok [OF g(3)] it]]
    by (simp add: say_def [abs_def] uid_def)
  then have "S' = \<lparr>nodes = map (take_round x ?x' ?cs') (nodes S), clock = now t\<rparr>"
    using assms(1) g it
    by (auto simp: round_of_def Let_def take_round_def fun_eq_iff intro!: map_cong)
  with g it show ?thesis by (intro that [of ?cs' st' acts stop ?x']) auto
qed

text \<open>What a round of the peer \<open>x\<close>, which turns it into \<open>x'\<close> and airs the commands \<open>cs\<close>, guarantees.\<close>

definition good_round :: "int \<Rightarrow> node \<Rightarrow> node \<Rightarrow> string \<Rightarrow> bool" where
  "good_round c x x' cs \<longleftrightarrow>
     who x' = who x \<and> deadline x' = deadline x \<and> linked_up x' = linked_up x \<and> sm_wf (peers (pstate x'))
     \<and> set cs \<subseteq> {CHR ''C'', CHR ''D''} \<and> (CHR ''D'' \<in> set cs \<longrightarrow> late c x)
     \<and> (cs \<noteq> [] \<longrightarrow> linked_up x) \<and> set (inbox x') \<subseteq> set (inbox x)
     \<and> (\<not> gone x' \<longrightarrow> heard x' = heard x)
     \<and> (\<forall>u. knows x' u \<and> \<not> knows x u \<longrightarrow> (\<exists>m \<in> set (inbox x). command m = CHR ''C'' \<and> uuid m = u)
           \<and> (linked_up x \<and> cs = [] \<longrightarrow> u = uid x))
     \<and> (gone x' \<longrightarrow> late c x \<or> (\<exists>m \<in> set (inbox x). command m = CHR ''D'' \<and> uuid m = uid x))
     \<and> (gone x' \<and> late c x \<and> linked_up x \<longrightarrow> cs = ''D'')"

lemma good_roundD:
  assumes "good_round c x x' cs"
  shows "who x' = who x" "deadline x' = deadline x" "linked_up x' = linked_up x" "sm_wf (peers (pstate x'))"
    "set cs \<subseteq> {CHR ''C'', CHR ''D''}" "CHR ''D'' \<in> set cs \<Longrightarrow> late c x" "cs \<noteq> [] \<Longrightarrow> linked_up x"
    "set (inbox x') \<subseteq> set (inbox x)" "\<not> gone x' \<Longrightarrow> heard x' = heard x"
    "knows x' u \<Longrightarrow> \<not> knows x u \<Longrightarrow> \<exists>m \<in> set (inbox x). command m = CHR ''C'' \<and> uuid m = u"
    "knows x' u \<Longrightarrow> \<not> knows x u \<Longrightarrow> linked_up x \<Longrightarrow> cs = [] \<Longrightarrow> u = uid x"
    "gone x' \<Longrightarrow> late c x \<or> (\<exists>m \<in> set (inbox x). command m = CHR ''D'' \<and> uuid m = uid x)"
    "gone x' \<Longrightarrow> late c x \<Longrightarrow> linked_up x \<Longrightarrow> cs = ''D''"
  using assms unfolding good_round_def by blast+

lemma peer_iter_good:
  assumes "self_ok (who x)" "sm_wf (peers (pstate x))" "fits_tick (inbox x) t"
    and it: "peer_iter (opts x) (who x) (deadline x) t (pstate x) = Inr (st', acts, stop)"
    and cs: "cs = (if linked_up x then round_commands (opts x) (who x) (deadline x) t (map_of (peers (pstate x))) else [])"
    and x': "x' = x\<lparr>pstate := st', inbox := (if proxy_ready t then tl (inbox x) else inbox x),
            dialled := dialled x \<or> dials acts, gone := stop\<rparr>"
  shows "good_round (now t) x x' cs"
proof -
  let ?now = "late (now t) x \<and> immediateExit (opts x) = 1"
  note ok = fits_tick_ok [OF assms(3)]
  note msg = fits_tick_msg [OF assms(3)]
  note mem = peer_iter_members [OF assms(1) ok assms(2) it, unfolded expired_late]
  note stop = peer_iter_stop [OF assms(1) ok it, unfolded last_round_def expired_late]
  have in_inbox: "set (inbox x') \<subseteq> set (inbox x)"
    using msg by (cases "inbox x") (auto simp: x')
  have "heard x' = heard x" if "\<not> gone x'"
    using that mem stop msg
    by (auto simp: x' heard_def tick_members_def fold_take_head split: if_splits)
  moreover have new: "(\<exists>m \<in> set (inbox x). command m = CHR ''C'' \<and> uuid m = u)
      \<and> (linked_up x \<and> cs = [] \<longrightarrow> u = uid x)" if "knows x' u" "\<not> knows x u" for u
  proof -
    have "\<not> ?now" "proxy_ready t" using that mem msg by (auto simp: x' tick_members_def split: if_splits)
    with mem msg have "map_of (peers st') = member_step (hd (inbox x)) (map_of (peers (pstate x)))"
      by (simp add: tick_members_def)
    with that have m: "command (hd (inbox x)) = CHR ''C''" "uuid (hd (inbox x)) = u"
      by (auto simp: x' member_step_def split: if_splits)
    moreover have "hd (inbox x) \<in> set (inbox x)" using msg \<open>proxy_ready t\<close> by simp
    moreover have "u = uid x" if "linked_up x" "cs = []"
      using that m \<open>\<not> ?now\<close> \<open>proxy_ready t\<close> msg \<open>\<not> knows x u\<close>
      by (auto simp: cs round_commands_def uid_def expired_late split: if_splits)
    ultimately show ?thesis by blast
  qed
  moreover have "late (now t) x \<or> (\<exists>m \<in> set (inbox x). command m = CHR ''D'' \<and> uuid m = uid x)" if "gone x'"
  proof -
    from that stop consider "late (now t) x"
      | m where "tick_msg t = Some m" "command m = CHR ''D''" "uuid m = uid x"
      by (auto simp: x' uid_def)
    then show ?thesis
      using msg by cases (auto split: if_splits)
  qed
  moreover have "cs = ''D''" if "gone x'" "late (now t) x" "linked_up x"
    using that stop by (auto simp: x' cs round_commands_def expired_late domIff split: if_splits)
  moreover have "set cs \<subseteq> {CHR ''C'', CHR ''D''}" "CHR ''D'' \<in> set cs \<longrightarrow> late (now t) x" "cs \<noteq> [] \<longrightarrow> linked_up x"
    by (auto simp: cs round_commands_def expired_late split: if_splits option.splits)
  ultimately show ?thesis
    using mem in_inbox unfolding good_round_def by (auto simp: x')
qed

text \<open>A round that is in time always goes through, and what it makes of the peer.\<close>

definition after_round :: "node \<Rightarrow> tick \<Rightarrow> node" where
  "after_round x t =
     (case tick_msg t of None \<Rightarrow> x
      | Some m \<Rightarrow> (case msg_step (opts x) (who x) t m (pstate x) of (st', acts, stop) \<Rightarrow>
          x\<lparr>pstate := st', inbox := tl (inbox x), dialled := dialled x \<or> dials acts, gone := stop\<rparr>))"

lemma dials_simps [simp]:
  "dials [] = False"
  "dials (c # cs) = ((case c of Connect h e \<Rightarrow> h = proxyPub | _ \<Rightarrow> False) \<or> dials cs)"
  "dials (as @ bs) = (dials as \<or> dials bs)"
  by (simp_all add: dials_def)

lemma dials_announce [simp]: "(case announce s cmd mem of Connect h e \<Rightarrow> h = proxyPub | _ \<Rightarrow> False) = False"
  by (simp add: announce_def split: sum.split)

lemma dials_round_acts [simp]: "dials (round_acts p s end t st acts stop) = dials acts"
  by (simp add: round_acts_def kickSocket2_def)

lemma round_of_timely:
  assumes "self_ok (who x)" "\<not> gone x" "clock S \<le> now t" "fits_tick (inbox x) t" "\<not> late (now t) x"
  shows "round_of S x t = Some \<lparr>nodes = map (take_round x (after_round x t)
      (if linked_up x then round_commands (opts x) (who x) (deadline x) t (map_of (peers (pstate x))) else []))
      (nodes S), clock = now t\<rparr>"
proof -
  note ok = fits_tick_ok [OF assms(4)]
  define cs where "cs = round_commands (opts x) (who x) (deadline x) t (map_of (peers (pstate x)))"
  have "\<exists>r. peer_iter (opts x) (who x) (deadline x) t (pstate x) = Inr r"
    by (rule exI) (rule peer_iter_ok [OF assms(1) ok])
  then obtain st' acts stop where it: "peer_iter (opts x) (who x) (deadline x) t (pstate x) = Inr (st', acts, stop)"
    by auto
  have said: "said acts = map (say x) cs"
    using said_eq [OF peer_iter_commands [OF assms(1) ok it]]
    by (simp add: say_def [abs_def] uid_def cs_def)
  let ?x' = "x\<lparr>pstate := st', inbox := (if proxy_ready t then tl (inbox x) else inbox x),
    dialled := dialled x \<or> dials acts, gone := stop\<rparr>"
  have "?x' = after_round x t"
  proof (cases "tick_msg t")
    case None
    with it assms(5) have "st' = pstate x" "stop = False" "\<not> dials acts"
      by (auto simp: peer_iter_ok [OF assms(1) ok] expired_late)
    moreover have "\<not> proxy_ready t" using None fits_tick_msg [OF assms(4)] by auto
    ultimately show ?thesis using None assms(2) by (simp add: after_round_def)
  next
    case (Some m)
    obtain st1 as b where ms: "msg_step (opts x) (who x) t m (pstate x) = (st1, as, b)"
      by (cases "msg_step (opts x) (who x) t m (pstate x)")
    with it assms(5) Some have "st' = st1" "stop = b" "dials acts = dials as"
      by (auto simp: peer_iter_ok [OF assms(1) ok] expired_late)
    moreover have "proxy_ready t" using Some fits_tick_msg [OF assms(4)] by (auto split: if_splits)
    ultimately show ?thesis using Some ms by (simp add: after_round_def)
  qed
  moreover have "round_of S x t = Some \<lparr>nodes = map (take_round x ?x' (if linked_up x then cs else [])) (nodes S),
      clock = now t\<rparr>"
    using assms(2,3,4) it said
    by (simp add: round_of_def Let_def take_round_def fun_eq_iff not_less)
  ultimately show ?thesis by (simp add: cs_def)
qed

section \<open>The invariant\<close>

text \<open>
  Of each node: its map is well formed and names peers of the system; what waits for it
  is the truth about a peer with a connection to the proxy, a disconnect of one whose time
  is up; and what it will know is the endpoint of a peer that is still there. Of two nodes whose
  time is not up: who has heard itself will be known to whoever it knows; and if both have,
  one of them will know the other.
\<close>

definition true_msg :: "disc \<Rightarrow> connect_msg \<Rightarrow> bool" where
  "true_msg S m \<longleftrightarrow> (\<exists>b \<in> set (nodes S). uuid m = uid b \<and> endpoint m = pubEndpoint (who b)
     \<and> linked_up b \<and> (command m = CHR ''D'' \<longrightarrow> late (clock S) b))"

definition node_inv :: "disc \<Rightarrow> node \<Rightarrow> bool" where
  "node_inv S n \<longleftrightarrow> self_ok (who n) \<and> sm_wf (peers (pstate n))
     \<and> (\<forall>u. knows n u \<longrightarrow> u \<in> uid ` set (nodes S))
     \<and> (\<forall>m \<in> set (inbox n). command m \<in> {CHR ''C'', CHR ''D''} \<longrightarrow> true_msg S m)
     \<and> (gone n \<longrightarrow> late (clock S) n)
     \<and> (\<not> gone n \<longrightarrow> (\<forall>u e. heard n u = Some e \<longrightarrow>
          (\<exists>b \<in> set (nodes S). uid b = u \<and> e = pubEndpoint (who b) \<and> linked_up b \<and> \<not> gone b)))"

definition pair_inv :: "int \<Rightarrow> node \<Rightarrow> node \<Rightarrow> bool" where
  "pair_inv c a b \<longleftrightarrow> late c a \<or> late c b
     \<or> (knows b (uid a) \<and> heard b (uid b) \<noteq> None \<longrightarrow> heard a (uid b) \<noteq> None)
       \<and> (heard a (uid a) \<noteq> None \<and> heard b (uid b) \<noteq> None \<longrightarrow>
            heard b (uid a) \<noteq> None \<or> heard a (uid b) \<noteq> None)"

definition disc_inv :: "disc \<Rightarrow> bool" where
  "disc_inv S \<longleftrightarrow> distinct (map uid (nodes S)) \<and> (\<forall>n \<in> set (nodes S). node_inv S n)
     \<and> (\<forall>a \<in> set (nodes S). \<forall>b \<in> set (nodes S). pair_inv (clock S) a b)"

lemma disc_invD:
  assumes "disc_inv S"
  shows "distinct (map uid (nodes S))" "n \<in> set (nodes S) \<Longrightarrow> node_inv S n"
    "a \<in> set (nodes S) \<Longrightarrow> b \<in> set (nodes S) \<Longrightarrow> pair_inv (clock S) a b"
  using assms by (auto simp: disc_inv_def)

lemma node_inv_heard:
  "node_inv S n \<Longrightarrow> \<not> gone n \<Longrightarrow> heard n u = Some e \<Longrightarrow>
     \<exists>b \<in> set (nodes S). uid b = u \<and> e = pubEndpoint (who b) \<and> linked_up b \<and> \<not> gone b"
  unfolding node_inv_def by blast

lemma same_uid: "distinct (map uid ns) \<Longrightarrow> a \<in> set ns \<Longrightarrow> b \<in> set ns \<Longrightarrow> uid a = uid b \<Longrightarrow> a = b"
  by (auto simp: distinct_map inj_on_def)

lemma late_mono: "late c n \<Longrightarrow> c \<le> c' \<Longrightarrow> late c' n"
  by (auto simp: late_def)

lemma inv_start: "disc_inv (disc_init c)"
  by (simp add: disc_inv_def disc_init_def)

subsection \<open>A peer joins, a connection comes up\<close>

lemma true_msg_mono:
  assumes "true_msg S m"
    and "\<And>b. b \<in> set (nodes S) \<Longrightarrow> \<exists>b' \<in> set (nodes S'). who b' = who b \<and> deadline b' = deadline b
      \<and> (linked_up b \<longrightarrow> linked_up b')"
    and "clock S \<le> clock S'"
  shows "true_msg S' m"
proof -
  from assms(1) obtain b where b: "b \<in> set (nodes S)" "uuid m = uid b" "endpoint m = pubEndpoint (who b)"
    "linked_up b" "command m = CHR ''D'' \<longrightarrow> late (clock S) b" by (auto simp: true_msg_def)
  from assms(2) [OF b(1)] obtain b' where "b' \<in> set (nodes S')" "who b' = who b" "deadline b' = deadline b"
    "linked_up b'" using b(4) by blast
  with b assms(3) show ?thesis by (auto simp: true_msg_def uid_def late_def intro!: bexI [of _ b'])
qed

lemma inv_join:
  assumes inv: "disc_inv S" and w: "command w = CHR ''W''" and ok: "self_ok s"
    and step: "disc_step w (Join p s end) S = Some S'"
  shows "disc_inv S'"
proof -
  define z where "z = \<lparr>opts = p, who = s, deadline = end, pstate = no_peers,
        inbox = [w], dialled = False, linked_up = False, gone = False\<rparr>"
  from step have fresh: "theUuid s \<notin> uid ` set (nodes S)"
    and S': "S' = S\<lparr>nodes := nodes S @ [z]\<rparr>" by (auto simp: z_def split: if_splits)
  have uz: "uid z = theUuid s" by (simp add: z_def uid_def)
  have hz: "heard z = Map.empty" "\<not> knows z u" "self_ok (who z)" "sm_wf (peers (pstate z))"
    "\<not> gone z" "inbox z = [w]" for u
    using w ok by (simp_all add: z_def heard_def member_step_def sm_laws)
  have true: "true_msg S' m" if "true_msg S m" for m
    using that by (rule true_msg_mono) (auto simp: S')
  have "node_inv S' n" if "n \<in> set (nodes S)" for n
    using disc_invD(2) [OF inv that] true unfolding node_inv_def S' by fastforce
  moreover have "node_inv S' z"
    using hz w by (auto simp: node_inv_def)
  moreover have "pair_inv (clock S) a b" if ab: "a \<in> set (nodes S')" "b \<in> set (nodes S')" for a b
  proof -
    consider "a = z" "b = z" | "a = z" "b \<in> set (nodes S)" | "b = z" | "a \<in> set (nodes S)" "b \<in> set (nodes S)"
      using ab by (auto simp: S')
    then show ?thesis
    proof cases
      case 2
      then have "\<not> knows b (uid a)"
        using disc_invD(2) [OF inv 2(2)] fresh uz by (auto simp: node_inv_def)
      with 2 show ?thesis by (simp add: pair_inv_def hz)
    next
      case 4
      then show ?thesis by (rule disc_invD(3) [OF inv])
    qed (simp_all add: pair_inv_def hz)
  qed
  moreover have "distinct (map uid (nodes S'))" using disc_invD(1) [OF inv] fresh uz by (simp add: S')
  ultimately show ?thesis by (auto simp: disc_inv_def S')
qed

lemma inv_link_up:
  assumes inv: "disc_inv S" and step: "disc_step w (Link_Up u) S = Some S'"
  shows "disc_inv S'"
proof -
  let ?f = "link_node u"
  have S': "S' = S\<lparr>nodes := map ?f (nodes S)\<rparr>" using step by simp
  have f: "who (?f n) = who n" "uid (?f n) = uid n" "deadline (?f n) = deadline n" "pstate (?f n) = pstate n"
    "inbox (?f n) = inbox n" "gone (?f n) = gone n" "heard (?f n) = heard n" "linked_up n \<longrightarrow> linked_up (?f n)"
    "late c (?f n) = late c n" for n c
    by (simp_all add: link_node_def uid_def heard_def late_def)
  have true: "true_msg S' m" if "true_msg S m" for m
    using that by (rule true_msg_mono) (use f in \<open>auto simp: S'\<close>)
  have "node_inv S' (?f n)" if "n \<in> set (nodes S)" for n
  proof -
    have n: "node_inv S n" using inv that by (rule disc_invD(2))
    have "\<exists>b \<in> set (nodes S'). uid b = v \<and> e = pubEndpoint (who b) \<and> linked_up b \<and> \<not> gone b"
      if "heard n v = Some e" "\<not> gone n" for v e
    proof -
      from n that obtain b where "b \<in> set (nodes S)" "uid b = v" "e = pubEndpoint (who b)" "linked_up b" "\<not> gone b"
        by (blast dest: node_inv_heard)
      with f [where n = b] show ?thesis by (intro bexI [of _ "?f b"]) (auto simp: S')
    qed
    moreover have "uid ` set (nodes S') = uid ` set (nodes S)" by (simp add: S' image_image f(2))
    moreover have "clock S' = clock S" by (simp add: S')
    ultimately show ?thesis using n true unfolding node_inv_def f by auto
  qed
  moreover have "pair_inv c (?f a) (?f b) = pair_inv c a b" for a b c
    by (simp only: pair_inv_def f)
  moreover have "distinct (map uid (nodes S'))" using disc_invD(1) [OF inv] by (simp add: S' o_def f(2))
  ultimately show ?thesis
    using disc_invD(3) [OF inv] unfolding disc_inv_def by (auto simp: S')
qed

subsection \<open>A round\<close>

text \<open>What the nodes of a system become when \<open>x\<close> takes a round.\<close>

lemma round_nodes:
  assumes inv: "disc_inv S" and x: "x \<in> set (nodes S)" and g: "good_round c x x' cs"
    and n: "n \<in> set (nodes S)"
  defines "n' \<equiv> take_round x x' cs n"
  shows "who n' = who n" "uid n' = uid n" "deadline n' = deadline n" "late d n' = late d n"
    "linked_up n' = linked_up n" "gone n' = (if n = x then gone x' else gone n)"
    "n \<noteq> x \<Longrightarrow> pstate n' = pstate n" "pstate (take_round x x' cs x) = pstate x'"
    "set (inbox n') \<subseteq> set (inbox n) \<union> say x ` set cs"
    "\<not> gone n' \<Longrightarrow> heard n' = fold member_step (map (say x) cs) (heard n)"
proof -
  have u: "uid n = uid x \<longleftrightarrow> n = x" using same_uid [OF disc_invD(1) [OF inv] n x] by blast
  note x' = good_roundD [OF g]
  show "who n' = who n" "uid n' = uid n" "deadline n' = deadline n" "late d n' = late d n"
    "linked_up n' = linked_up n" "gone n' = (if n = x then gone x' else gone n)"
    "n \<noteq> x \<Longrightarrow> pstate n' = pstate n" "pstate (take_round x x' cs x) = pstate x'"
    "set (inbox n') \<subseteq> set (inbox n) \<union> say x ` set cs"
    using u x'(1-3,8) by (cases "n = x"; force simp: n'_def uid_def late_def)+
  show "heard n' = fold member_step (map (say x) cs) (heard n)" if "\<not> gone n'"
    using that u x'(9) by (cases "n = x") (auto simp: n'_def heard_take_round)
qed

lemma inv_round:
  assumes inv: "disc_inv S" and x: "x \<in> set (nodes S)" and run: "\<not> gone x" and le: "clock S \<le> c"
    and g: "good_round c x x' cs"
    and S': "S' = \<lparr>nodes = map (take_round x x' cs) (nodes S), clock = c\<rparr>"
  shows "disc_inv S'"
proof -
  let ?T = "take_round x x' cs"
  note T = round_nodes [OF inv x g]
  note ix = disc_invD(2) [OF inv x]
  note x' = good_roundD [OF g]
  have true: "true_msg S' m" if "true_msg S m" for m
    using that by (rule true_msg_mono) (use T le in \<open>auto simp: S'\<close>)
  have aired: "true_msg S' (say x k)" if "k \<in> set cs" for k
  proof -
    have up: "linked_up x" using x'(7) that by (metis empty_iff empty_set)
    have l: "k = CHR ''D'' \<longrightarrow> late c x" using x'(6) that by metis
    have "?T x \<in> set (nodes S')" using x by (simp add: S')
    moreover have "uuid (say x k) = uid (?T x)" "endpoint (say x k) = pubEndpoint (who (?T x))"
      "command (say x k) = k" "clock S' = c"
      by (simp_all add: say_def T(1,2) [OF x] x'(1) S')
    ultimately show ?thesis
      unfolding true_msg_def using up l T(4,5) [OF x] by (intro bexI [of _ "?T x"]) simp_all
  qed
  have other: "heard (?T n) u = heard n u" if "n \<in> set (nodes S)" "\<not> gone (?T n)" "u \<noteq> uid x \<or> cs = []" for n u
    using T(10) [OF that(1,2)] that(3) by (auto simp: fold_say_other)
  have stop: "late c x" "linked_up x \<longrightarrow> cs = ''D''" if "gone x'"
  proof -
    show l: "late c x"
    proof (rule ccontr)
      assume "\<not> late c x"
      with that x'(12) obtain m where m: "m \<in> set (inbox x)" "command m = CHR ''D''" "uuid m = uid x" by blast
      with ix have "true_msg S m" by (auto simp: node_inv_def)
      then obtain b where "b \<in> set (nodes S)" "uid x = uid b" "late (clock S) b" using m by (auto simp: true_msg_def)
      with same_uid [OF disc_invD(1) [OF inv] x, of b] have "late (clock S) x" by simp
      with late_mono le \<open>\<not> late c x\<close> show False by blast
    qed
    with that x'(13) show "linked_up x \<longrightarrow> cs = ''D''" by blast
  qed
  have uids: "uid ` set (nodes S') = uid ` set (nodes S)"
    using T(2) by (force simp: S' image_image)
  have nodes: "node_inv S' (?T n)" if n: "n \<in> set (nodes S)" for n
  proof -
    note i = disc_invD(2) [OF inv n, unfolded node_inv_def]
    have "sm_wf (peers (pstate (?T n)))" "self_ok (who (?T n))"
      using i x'(4) T(1,7,8) [OF n] by (cases "n = x"; simp)+
    moreover have "u \<in> uid ` set (nodes S')" if "knows (?T n) u" for u
    proof (cases "n = x \<and> \<not> knows x u")
      case True
      with that T(8) [OF x] x'(10) [of u] obtain m where "m \<in> set (inbox x)" "command m = CHR ''C''" "uuid m = u" by auto
      with ix have "true_msg S m" by (auto simp: node_inv_def)
      with \<open>uuid m = u\<close> show ?thesis by (auto simp: uids true_msg_def)
    next
      case False
      with that T(7) [OF n] i show ?thesis by (cases "n = x") (auto simp: uids)
    qed
    moreover have "true_msg S' m" if "m \<in> set (inbox (?T n))" "command m \<in> {CHR ''C'', CHR ''D''}" for m
      using T(9) [OF n] that i true aired by auto
    moreover have "late (clock S') (?T n)" if "gone (?T n)"
      using that T(4,6) [OF n] i stop(1) le late_mono by (auto simp: S' split: if_splits)
    moreover have "\<exists>b \<in> set (nodes S'). uid b = u \<and> e = pubEndpoint (who b) \<and> linked_up b \<and> \<not> gone b"
      if h: "heard (?T n) u = Some e" and run: "\<not> gone (?T n)" for u e
    proof -
      have run_n: "\<not> gone n" using run T(6) [OF n] \<open>\<not> gone x\<close> by (auto split: if_splits)
      have fold: "fold member_step (map (say x) cs) (heard n) u = Some e" using h T(10) [OF n run] by simp
      note origin = fold_say_value [OF fold]
      show ?thesis
      proof (cases "u = uid x")
        case False
        with origin have "heard n u = Some e" by blast
        from node_inv_heard [OF disc_invD(2) [OF inv n] run_n this] obtain b where
          b: "b \<in> set (nodes S)" "uid b = u" "e = pubEndpoint (who b)" "linked_up b" "\<not> gone b" by blast
        with T [OF b(1)] False show ?thesis by (intro bexI [of _ "?T b"]) (auto simp: S')
      next
        case True
        have "linked_up x \<and> e = pubEndpoint (who x)"
        proof (cases "heard n u = Some e")
          case True
          from node_inv_heard [OF disc_invD(2) [OF inv n] run_n this] obtain b where
            "b \<in> set (nodes S)" "uid b = u" "e = pubEndpoint (who b)" "linked_up b" by blast
          with same_uid [OF disc_invD(1) [OF inv] x, of b] \<open>u = uid x\<close> show ?thesis by simp
        next
          case False
          with fold have "cs \<noteq> []" by auto
          with False origin x'(7) show ?thesis by blast
        qed
        moreover have "\<not> gone x'"
        proof
          assume "gone x'"
          with stop(2) \<open>linked_up x \<and> _\<close> have "cs = ''D''" by blast
          with fold True show False by (simp add: member_step_def say_def)
        qed
        ultimately show ?thesis
          using T [OF x] x True by (intro bexI [of _ "?T x"]) (auto simp: S')
      qed
    qed
    ultimately show ?thesis unfolding node_inv_def by blast
  qed
  have "pair_inv c (?T a) (?T b)" if a: "a \<in> set (nodes S)" and b: "b \<in> set (nodes S)" for a b
  proof (cases "late c a \<or> late c b")
    case True
    then show ?thesis using T(4) [OF a] T(4) [OF b] by (auto simp: pair_inv_def)
  next
    case False
    then have old: "\<not> late (clock S) a" "\<not> late (clock S) b" using le late_mono by blast+
    note p = disc_invD(3) [OF inv a b, unfolded pair_inv_def]
    have stay: "\<not> gone (?T a)" "\<not> gone (?T b)"
      using nodes [OF a] nodes [OF b] False T(4) [OF a] T(4) [OF b] by (auto simp: node_inv_def S')
    have conn: "heard (?T n) (uid x) \<noteq> None" if "n \<in> {a, b}" "cs \<noteq> []" "a = x \<or> b = x" for n
    proof -
      have "\<not> late c x" using that(3) False by blast
      with x'(5,6) have "set cs \<subseteq> {CHR ''C''}" by blast
      from fold_say_connects [OF this] that(2) have "fold member_step (map (say x) cs) (heard n) (uid x) \<noteq> None" by blast
      then show ?thesis using that(1) T(10) [OF a stay(1)] T(10) [OF b stay(2)] by auto
    qed
    have one: "heard (?T a) (uid b) \<noteq> None" if k: "knows (?T b) (uid a)" and h: "heard (?T b) (uid b) \<noteq> None"
    proof (cases "b = x")
      case True
      show ?thesis
      proof (cases "cs = []")
        case False
        with conn [of a] True show ?thesis by simp
      next
        case no: True
        then have hx: "heard x (uid x) \<noteq> None" using h other [OF b stay(2)] True by auto
        then have "linked_up x" using node_inv_heard [OF ix run] same_uid [OF disc_invD(1) [OF inv] x] by fastforce
        show ?thesis
        proof (cases "knows x (uid a)")
          case True
          with p old hx \<open>b = x\<close> have "heard a (uid b) \<noteq> None" by blast
          with other [OF a stay(1)] no show ?thesis by auto
        next
          case False
          with k T(8) [OF x] \<open>b = x\<close> x'(11) [of "uid a"] \<open>linked_up x\<close> no have "uid a = uid x" by auto
          with same_uid [OF disc_invD(1) [OF inv] a x] h \<open>b = x\<close> show ?thesis by simp
        qed
      qed
    next
      case False
      then have u: "uid b \<noteq> uid x" using same_uid [OF disc_invD(1) [OF inv] b x] by blast
      from k h p old other [OF b stay(2)] u T(7) [OF b False] have "heard a (uid b) \<noteq> None" by auto
      with other [OF a stay(1)] u show ?thesis by auto
    qed
    have two: "heard (?T b) (uid a) \<noteq> None \<or> heard (?T a) (uid b) \<noteq> None"
      if h: "heard (?T a) (uid a) \<noteq> None" "heard (?T b) (uid b) \<noteq> None"
    proof (cases "cs \<noteq> [] \<and> (a = x \<or> b = x)")
      case True
      with conn [of a] conn [of b] show ?thesis by auto
    next
      case False
      then have "uid a \<noteq> uid x \<and> uid b \<noteq> uid x \<or> cs = []"
        using same_uid [OF disc_invD(1) [OF inv] a x] same_uid [OF disc_invD(1) [OF inv] b x] by blast
      with other [OF a stay(1)] other [OF b stay(2)] h p old show ?thesis by auto
    qed
    have "uid (?T a) = uid a" "uid (?T b) = uid b" using T(2) a b by blast+
    with one two show ?thesis by (auto simp: pair_inv_def)
  qed
  moreover have "map uid (nodes S') = map uid (nodes S)" using T(2) by (simp add: S')
  then have "distinct (map uid (nodes S'))" using disc_invD(1) [OF inv] by (simp only:)
  ultimately show ?thesis
    using nodes unfolding disc_inv_def by (auto simp: S')
qed

lemma find_member: "List.find P xs = Some x \<Longrightarrow> x \<in> set xs \<and> P x"
  by (induction xs) (auto split: if_splits)

lemma discovery_inv:
  assumes "command w = CHR ''W''" "discovery w S"
  shows "disc_inv S"
  using assms(2)
proof induction
  case (start c)
  show ?case by (rule inv_start)
next
  case (join S s p "end" S')
  from inv_join [OF join.IH assms(1) join.hyps(2,3)] show ?case .
next
  case (link_up S u S')
  from inv_link_up [OF link_up.IH link_up.hyps(2)] show ?case .
next
  case (round S u t S')
  from round.hyps(2) obtain x where x: "x \<in> set (nodes S)" and step: "round_of S x t = Some S'"
    by (auto split: option.splits dest: find_member)
  have ok: "self_ok (who x)" "sm_wf (peers (pstate x))"
    using disc_invD(2) [OF round.IH x] by (auto simp: node_inv_def)
  obtain x' cs st' acts stop where r: "cs = (if linked_up x
      then round_commands (opts x) (who x) (deadline x) t (map_of (peers (pstate x))) else [])"
    "peer_iter (opts x) (who x) (deadline x) t (pstate x) = Inr (st', acts, stop)"
    "S' = \<lparr>nodes = map (take_round x x' cs) (nodes S), clock = now t\<rparr>"
    "x' = x\<lparr>pstate := st', inbox := (if proxy_ready t then tl (inbox x) else inbox x),
            dialled := dialled x \<or> dials acts, gone := stop\<rparr>"
    "\<not> gone x" "clock S \<le> now t" "fits_tick (inbox x) t"
    by (rule round_ofE [OF step ok])
  from peer_iter_good [OF ok r(7) r(2) r(1) r(4)] show ?case
    by (rule inv_round [OF round.IH x r(5) r(6) _ r(3)])
qed

end
