(* ===== verification/Discovery_Properties.thy ===== *)
theory Discovery_Properties
  imports Discovery
begin

section \<open>The property\<close>

definition quiet :: "disc \<Rightarrow> bool" where
  "quiet S \<longleftrightarrow> list_all (\<lambda>n. gone n \<or> inbox n = []) (nodes S)"

fun disc_run :: "connect_msg \<Rightarrow> disc_event list \<Rightarrow> disc \<Rightarrow> disc option" where
  "disc_run w [] S = Some S"
| "disc_run w (e # es) S = (case disc_step w e S of None \<Rightarrow> None | Some S' \<Rightarrow> disc_run w es S')"

definition joins_ok :: "disc_event \<Rightarrow> bool" where
  "joins_ok e = (case e of Join p s end \<Rightarrow> self_ok s | Link_Up u \<Rightarrow> True | Round u t \<Rightarrow> True)"

lemma disc_run_discovery:
  "discovery w S \<Longrightarrow> list_all joins_ok es \<Longrightarrow> disc_run w es S = Some S' \<Longrightarrow> discovery w S'"
proof (induction es arbitrary: S)
  case Nil
  then show ?case by simp
next
  case (Cons e es)
  from Cons.prems(3) obtain S1 where s1: "disc_step w e S = Some S1" "disc_run w es S1 = Some S'"
    by (auto split: option.splits)
  have "discovery w S1"
  proof (cases e)
    case (Join p s d)
    with Cons.prems s1(1) show ?thesis by (auto intro: discovery.join simp: joins_ok_def simp del: disc_step.simps)
  next
    case (Link_Up u)
    with Cons.prems s1(1) show ?thesis by (auto intro: discovery.link_up simp del: disc_step.simps)
  next
    case (Round u t)
    with Cons.prems s1(1) show ?thesis by (auto intro: discovery.round simp del: disc_step.simps)
  qed
  with Cons s1 show ?case by simp
qed

subsection \<open>Rounds in time\<close>

definition tick_at :: "int \<Rightarrow> connect_msg \<Rightarrow> tick" where
  "tick_at c m = (tick_of m)\<lparr>now := c\<rparr>"

definition hear :: "connect_msg \<Rightarrow> node \<Rightarrow> node" where
  "hear m x = x\<lparr>pstate := (if command m = CHR ''C'' \<and> \<not> knows x (uuid m)
       then (pstate x)\<lparr>peers := sm_put (uuid m) (endpoint m) (peers (pstate x))\<rparr> else pstate x),
     inbox := tl (inbox x), dialled := (dialled x \<or> command m = CHR ''W'')\<rparr>"

definition hello :: "node \<Rightarrow> string" where
  "hello x = (if knows x (uid x) then [] else ''C'')"

definition reply :: "connect_msg \<Rightarrow> node \<Rightarrow> string" where
  "reply m x = (if command m = CHR ''C'' \<and> \<not> knows x (uuid m) \<and> uuid m \<noteq> uid x then ''C'' else [])"

lemma tick_at_simps:
  assumes "sendable_msg m"
  shows "tick_msg (tick_at c m) = Some m" "now (tick_at c m) = c"
    "inbox x \<noteq> [] \<Longrightarrow> hd (inbox x) = m \<Longrightarrow> fits_tick (inbox x) (tick_at c m)"
  using tick_of_ok [OF assms] tick_of_received [OF assms]
  by (auto simp: tick_at_def fits_tick_def tick_ok_def neq_Nil_conv)

lemma round_hear:
  assumes "self_ok (who x)" "\<not> gone x" "clock S \<le> c" "\<not> late c x"
    and "inbox x \<noteq> []" "hd (inbox x) = m" "sendable_msg m" "command m \<noteq> CHR ''D''"
  shows "round_of S x (tick_at c m) = Some \<lparr>nodes = map (take_round x (hear m x)
    (if linked_up x then hello x @ reply m x else [])) (nodes S), clock = c\<rparr>"
proof -
  note t = tick_at_simps [OF assms(7), where c = c]
  have "after_round x (tick_at c m) = hear m x"
    using assms(2,8) t(1)
    by (cases x) (auto simp: after_round_def hear_def msg_step_def handle_welcome_def uid_def)
  moreover have "round_commands (opts x) (who x) (deadline x) (tick_at c m) (map_of (peers (pstate x))) = hello x @ reply m x"
    using assms(4) t(1,2) by (auto simp: round_commands_def hello_def reply_def expired_late uid_def)
  ultimately show ?thesis
    using round_of_timely [OF assms(1,2) _ t(3) [OF assms(5,6)]] assms(3,4) t(2) by simp
qed

lemma round_idle:
  assumes "self_ok (who x)" "\<not> gone x" "clock S \<le> c" "\<not> late c x"
  shows "round_of S x (quiet_tick c) = Some \<lparr>nodes = map (take_round x x
    (if linked_up x then hello x else [])) (nodes S), clock = c\<rparr>"
proof -
  have "now (quiet_tick c) = c" "fits_tick (inbox x) (quiet_tick c)"
    by (simp_all add: fits_tick_def, simp_all add: quiet_tick_def)
  moreover have "round_commands (opts x) (who x) (deadline x) (quiet_tick c) (map_of (peers (pstate x))) = hello x"
    using assms(4) calculation(1) by (auto simp: round_commands_def hello_def expired_late uid_def)
  ultimately show ?thesis
    using round_of_timely [OF assms(1,2), of S "quiet_tick c"] assms(3,4) by (simp add: after_round_def)
qed

subsection \<open>Towards completion\<close>

text \<open>
  A system in time: every peer has its connection to the proxy and none has run out of its
  time. One system leads to another by rounds that keep what the peers know.
\<close>

definition in_time :: "disc \<Rightarrow> bool" where
  "in_time S \<longleftrightarrow> list_all (\<lambda>n. linked_up n \<and> \<not> late (clock S) n) (nodes S)"

definition is_round :: "disc_event \<Rightarrow> bool" where
  "is_round e = (case e of Round u t \<Rightarrow> True | _ \<Rightarrow> False)"

definition timely :: "connect_msg \<Rightarrow> disc \<Rightarrow> bool" where
  "timely w S \<longleftrightarrow> command w = CHR ''W'' \<and> sendable_msg w \<and> discovery w S \<and> in_time S"

definition grown :: "node \<Rightarrow> node \<Rightarrow> bool" where
  "grown n n' \<longleftrightarrow> uid n' = uid n \<and> (\<forall>u. knows n u \<longrightarrow> knows n' u)"

definition leads :: "connect_msg \<Rightarrow> disc \<Rightarrow> disc \<Rightarrow> bool" where
  "leads w S S' \<longleftrightarrow> timely w S' \<and> (\<exists>es. list_all is_round es \<and> disc_run w es S = Some S')
     \<and> list_all2 grown (nodes S) (nodes S')"

lemma disc_run_append:
  "disc_run w (es @ fs) S = (case disc_run w es S of None \<Rightarrow> None | Some S' \<Rightarrow> disc_run w fs S')"
  by (induction es arbitrary: S) (auto split: option.split)

lemma grown_refl: "grown n n"
  by (simp add: grown_def)

lemma leads_refl: "timely w S \<Longrightarrow> leads w S S"
  by (auto simp: leads_def list_all2_refl grown_refl intro!: exI [of _ "[]"])

lemma leads_trans:
  assumes "leads w S S1" "leads w S1 S2"
  shows "leads w S S2"
proof -
  obtain es fs where "list_all is_round es" "disc_run w es S = Some S1"
    "list_all is_round fs" "disc_run w fs S1 = Some S2"
    using assms by (auto simp: leads_def)
  then have "list_all is_round (es @ fs)" "disc_run w (es @ fs) S = Some S2"
    by (simp_all add: disc_run_append)
  moreover have "list_all2 grown (nodes S) (nodes S2)"
    using assms by (auto simp: leads_def grown_def intro: list_all2_trans [of grown grown grown])
  ultimately show ?thesis using assms(2) unfolding leads_def by blast
qed

lemma leads_grown:
  assumes "leads w S S'"
  shows "n' \<in> set (nodes S') \<Longrightarrow> \<exists>n \<in> set (nodes S). grown n n'"
    and "map uid (nodes S') = map uid (nodes S)"
proof -
  have l2: "list_all2 grown (nodes S) (nodes S')" using assms by (simp add: leads_def)
  show "\<exists>n \<in> set (nodes S). grown n n'" if "n' \<in> set (nodes S')"
    using l2 that by (metis in_set_conv_nth list_all2_conv_all_nth)
  show "map uid (nodes S') = map uid (nodes S)"
    using l2 by (auto simp: list_all2_conv_all_nth grown_def intro: nth_equalityI)
qed

lemma discovery_sendable:
  assumes "command w = CHR ''W''" "sendable_msg w" "discovery w S"
  shows "\<forall>n \<in> set (nodes S). \<forall>m \<in> set (inbox n). sendable_msg m"
  using assms(3)
proof induction
  case (start c)
  then show ?case by (simp add: disc_init_def)
next
  case (join S s p "end" S')
  then show ?case using assms(2) by (auto split: if_splits)
next
  case (link_up S u S')
  then show ?case by (auto simp: link_node_def split: if_splits)
next
  case (round S u t S')
  note inv = discovery_inv [OF assms(1) round.hyps(1)]
  from round.hyps(2) obtain x where x: "x \<in> set (nodes S)" and step: "round_of S x t = Some S'"
    by (auto split: option.splits dest: find_member)
  have ok: "self_ok (who x)" "sm_wf (peers (pstate x))"
    using disc_invD(2) [OF inv x] by (auto simp: node_inv_def)
  have said: "sendable_msg (say x k)" for k
    using ok(1) by (simp add: say_def sendable_msg_def self_ok_def uid_def)
  obtain x' cs where S': "nodes S' = map (take_round x x' cs) (nodes S)" and sub: "set (inbox x') \<subseteq> set (inbox x)"
    using round_ofE [OF step ok] peer_iter_good [OF ok] good_roundD(8) by (metis disc.select_convs(1))
  show ?case
    using round.IH x said sub by (auto simp: S' take_round_def Let_def split: if_splits)
qed

lemma timelyD:
  assumes "timely w S"
  shows "disc_inv S" "n \<in> set (nodes S) \<Longrightarrow> linked_up n" "n \<in> set (nodes S) \<Longrightarrow> \<not> late (clock S) n"
    "n \<in> set (nodes S) \<Longrightarrow> \<not> gone n" "n \<in> set (nodes S) \<Longrightarrow> self_ok (who n)"
    "n \<in> set (nodes S) \<Longrightarrow> sm_wf (peers (pstate n))"
    "n \<in> set (nodes S) \<Longrightarrow> m \<in> set (inbox n) \<Longrightarrow> sendable_msg m \<and> command m \<noteq> CHR ''D''"
proof -
  show inv: "disc_inv S" using assms by (auto simp: timely_def intro: discovery_inv)
  show tm: "linked_up n" "\<not> late (clock S) n" if "n \<in> set (nodes S)" for n
    using assms that by (auto simp: timely_def in_time_def list_all_iff)
  show "\<not> gone n" "self_ok (who n)" "sm_wf (peers (pstate n))" if "n \<in> set (nodes S)"
    using disc_invD(2) [OF inv that] tm [OF that] by (auto simp: node_inv_def)
  show "sendable_msg m \<and> command m \<noteq> CHR ''D''" if "n \<in> set (nodes S)" "m \<in> set (inbox n)"
    using disc_invD(2) [OF inv that(1)] tm discovery_sendable [of w S] assms that
    by (auto simp: node_inv_def true_msg_def timely_def)
qed

definition turn :: "disc \<Rightarrow> node \<Rightarrow> node \<Rightarrow> string \<Rightarrow> disc" where
  "turn S x x' cs = \<lparr>nodes = map (take_round x x' cs) (nodes S), clock = clock S\<rparr>"

lemma find_uid: "distinct (map uid ns) \<Longrightarrow> x \<in> set ns \<Longrightarrow> List.find (\<lambda>n. uid n = uid x) ns = Some x"
  by (induction ns) auto

lemma turn_leads:
  assumes t: "timely w S" and x: "x \<in> set (nodes S)"
    and step: "round_of S x k = Some (turn S x x' cs)"
    and x': "who x' = who x" "linked_up x' = linked_up x" "deadline x' = deadline x"
      "\<And>u. knows x u \<Longrightarrow> knows x' u"
  shows "leads w S (turn S x x' cs)"
proof -
  note inv = timelyD(1) [OF t]
  have u: "uid n = uid x \<longleftrightarrow> n = x" if "n \<in> set (nodes S)" for n
    using same_uid [OF disc_invD(1) [OF inv] that x] by blast
  have ds: "disc_step w (Round (uid x) k) S = Some (turn S x x' cs)"
    using find_uid [OF disc_invD(1) [OF inv] x] step by simp
  have gr: "grown n (take_round x x' cs n)" if "n \<in> set (nodes S)" for n
    using u [OF that] x' by (cases "n = x") (auto simp: grown_def uid_def)
  have "in_time (turn S x x' cs)"
    using u x' timelyD(2,3) [OF t] x by (auto simp: in_time_def list_all_iff turn_def late_def)
  then have "timely w (turn S x x' cs)"
    using t discovery.round [OF _ ds] by (simp add: timely_def)
  moreover have "\<exists>es. list_all is_round es \<and> disc_run w es S = Some (turn S x x' cs)"
    by (rule exI [of _ "[Round (uid x) k]"]) (use ds in \<open>simp add: is_round_def\<close>)
  moreover have "list_all2 grown (nodes S) (nodes (turn S x x' cs))"
    using gr by (simp add: turn_def list.rel_map list.rel_refl_strong)
  ultimately show ?thesis by (simp add: leads_def)
qed

lemma knows_hear:
  "sm_wf (peers (pstate x)) \<Longrightarrow> knows (hear m x) u \<longleftrightarrow> knows x u \<or> command m = CHR ''C'' \<and> u = uuid m"
  by (auto simp: hear_def sm_laws)

lemma hear_leads:
  assumes t: "timely w S" and x: "x \<in> set (nodes S)" and i: "inbox x = m # ms"
  shows "leads w S (turn S x (hear m x) (hello x @ reply m x))"
proof (rule turn_leads [OF t x])
  note d = timelyD(2-5) [OF t x]
  show "round_of S x (tick_at (clock S) m) = Some (turn S x (hear m x) (hello x @ reply m x))"
    using round_hear [of x S "clock S" m] d timelyD(7) [OF t x, of m] i by (simp add: turn_def)
qed (use knows_hear [OF timelyD(6) [OF t x]] in \<open>auto simp: hear_def\<close>)

lemma idle_leads:
  assumes t: "timely w S" and x: "x \<in> set (nodes S)"
  shows "leads w S (turn S x x (hello x))"
proof (rule turn_leads [OF t x])
  show "round_of S x (quiet_tick (clock S)) = Some (turn S x x (hello x))"
    using round_idle [of x S "clock S"] timelyD(2-5) [OF t x] by (simp add: turn_def)
qed simp_all

text \<open>First every peer hears itself.\<close>

lemma turn_node: "x \<in> set (nodes S) \<Longrightarrow> x'\<lparr>inbox := inbox x' @ map (say x) cs\<rparr> \<in> set (nodes (turn S x x' cs))"
  by (auto simp: turn_def take_round_def Let_def intro: image_eqI [of _ _ x])

lemma hears_itself:
  "timely w S \<Longrightarrow> x \<in> set (nodes S) \<Longrightarrow> inbox x = pre @ say x CHR ''C'' # post \<Longrightarrow>
     \<exists>S'. leads w S S' \<and> (\<exists>x' \<in> set (nodes S'). uid x' = uid x \<and> knows x' (uid x))"
proof (induction pre arbitrary: S x post)
  case Nil
  let ?m = "say x CHR ''C''"
  let ?S = "turn S x (hear ?m x) (hello x @ reply ?m x)"
  let ?y = "(hear ?m x)\<lparr>inbox := inbox (hear ?m x) @ map (say x) (hello x @ reply ?m x)\<rparr>"
  have "leads w S ?S" using hear_leads [OF Nil(1,2)] Nil(3) by simp
  moreover have "knows (hear ?m x) (uid x)"
    using knows_hear [OF timelyD(6) [OF Nil(1,2)]] by (simp add: say_def)
  then have "uid ?y = uid x \<and> knows ?y (uid x)" by (simp add: uid_def hear_def)
  moreover have "?y \<in> set (nodes ?S)" by (rule turn_node [OF Nil(2)])
  ultimately show ?case by blast
next
  case (Cons m pre)
  let ?cs = "hello x @ reply m x"
  let ?S = "turn S x (hear m x) ?cs"
  let ?y = "(hear m x)\<lparr>inbox := inbox (hear m x) @ map (say x) ?cs\<rparr>"
  have l: "leads w S ?S" using hear_leads [OF Cons.prems(1,2)] Cons.prems(3) by simp
  have y: "uid ?y = uid x" "say ?y = say x" "inbox ?y = pre @ say x CHR ''C'' # post @ map (say x) ?cs"
    using Cons.prems(3) by (auto simp: hear_def uid_def say_def fun_eq_iff)
  have "timely w ?S" using l by (simp add: leads_def)
  moreover have "?y \<in> set (nodes ?S)" by (rule turn_node [OF Cons.prems(2)])
  ultimately obtain S' where "leads w ?S S'" "\<exists>x' \<in> set (nodes S'). uid x' = uid x \<and> knows x' (uid x)"
    using Cons.IH [of ?S ?y "post @ map (say x) ?cs"] y by auto
  with leads_trans [OF l] show ?case by blast
qed

lemma introduces_itself:
  assumes t: "timely w S" and x: "x \<in> set (nodes S)"
  shows "\<exists>S'. leads w S S' \<and> (\<exists>x' \<in> set (nodes S'). uid x' = uid x \<and> knows x' (uid x))"
proof (cases "knows x (uid x)")
  case True
  with leads_refl [OF t] x show ?thesis by blast
next
  case False
  let ?S = "turn S x x (hello x)"
  let ?y = "x\<lparr>inbox := inbox x @ map (say x) (hello x)\<rparr>"
  have l: "leads w S ?S" by (rule idle_leads [OF t x])
  have y: "uid ?y = uid x" "say ?y = say x" "inbox ?y = inbox x @ say x CHR ''C'' # []"
    using False by (auto simp: hello_def uid_def say_def fun_eq_iff)
  have "timely w ?S" using l by (simp add: leads_def)
  moreover have "?y \<in> set (nodes ?S)" by (rule turn_node [OF x])
  ultimately obtain S' where "leads w ?S S'" "\<exists>x' \<in> set (nodes S'). uid x' = uid x \<and> knows x' (uid x)" using hears_itself [of w ?S ?y "inbox x" "[]"] y by auto
  with leads_trans [OF l] show ?thesis by blast
qed

definition unheard :: "disc \<Rightarrow> string set" where
  "unheard S = {u. \<exists>n \<in> set (nodes S). uid n = u \<and> \<not> knows n u}"

lemma unheard_leads: "leads w S S' \<Longrightarrow> unheard S' \<subseteq> unheard S"
  using leads_grown(1) [of w S S'] by (fastforce simp: unheard_def grown_def)

lemma finite_unheard: "finite (unheard S)"
  by (rule finite_subset [of _ "uid ` set (nodes S)"]) (auto simp: unheard_def)

lemma all_hear_themselves: "timely w S \<Longrightarrow> \<exists>S'. leads w S S' \<and> unheard S' = {}"
proof (induction "card (unheard S)" arbitrary: S rule: less_induct)
  case less
  show ?case
  proof (cases "unheard S = {}")
    case True
    with leads_refl [OF less.prems] show ?thesis by blast
  next
    case False
    then obtain x where x: "x \<in> set (nodes S)" "uid x \<in> unheard S" by (auto simp: unheard_def)
    obtain S1 x' where l: "leads w S S1" and x': "x' \<in> set (nodes S1)" "uid x' = uid x" "knows x' (uid x)"
      using introduces_itself [OF less.prems x(1)] by blast
    have t1: "timely w S1" using l by (simp add: leads_def)
    have "n = x'" if "n \<in> set (nodes S1)" "uid n = uid x" for n
      using same_uid [OF disc_invD(1) [OF timelyD(1) [OF t1]] that(1) x'(1)] that(2) x'(2) by simp
    then have "uid x \<notin> unheard S1" using x'(3) unfolding unheard_def by blast
    with unheard_leads [OF l] x(2) have "unheard S1 \<subset> unheard S" by blast
    then have "card (unheard S1) < card (unheard S)" by (rule psubset_card_mono [OF finite_unheard])
    from less.hyps [OF this t1] leads_trans [OF l] show ?thesis by blast
  qed
qed

text \<open>
  Then the messages waiting run out: a message tells its receiver of a peer it did not know,
  of which there are only so many, or it is answered by none.
\<close>

definition unknown :: "disc \<Rightarrow> (string \<times> string) set" where
  "unknown S = {(u, v). \<exists>n \<in> set (nodes S). uid n = u \<and> v \<in> uid ` set (nodes S) \<and> \<not> knows n v}"

definition waiting :: "disc \<Rightarrow> nat" where
  "waiting S = sum_list (map (\<lambda>n. length (inbox n)) (nodes S))"

lemma finite_unknown: "finite (unknown S)"
  by (rule finite_subset [of _ "uid ` set (nodes S) \<times> uid ` set (nodes S)"]) (auto simp: unknown_def)

lemma unknown_leads:
  assumes "leads w S S'"
  shows "unknown S' \<subseteq> unknown S"
proof -
  have "uid ` set (nodes S') = uid ` set (nodes S)"
    using leads_grown(2) [OF assms] by (metis set_map)
  then show ?thesis using leads_grown(1) [OF assms] by (fastforce simp: unknown_def grown_def)
qed

lemma sum_list_less:
  fixes f g :: "'a \<Rightarrow> nat"
  assumes "\<And>x. x \<in> set xs \<Longrightarrow> f x \<le> g x" "x \<in> set xs" "f x < g x"
  shows "sum_list (map f xs) < sum_list (map g xs)"
  using assms
proof (induction xs)
  case Nil
  then show ?case by simp
next
  case (Cons y ys)
  have "sum_list (map f ys) \<le> sum_list (map g ys)" using Cons.prems(1) by (intro sum_list_mono) simp
  moreover have "f y \<le> g y" using Cons.prems(1) by simp
  moreover have "sum_list (map f ys) < sum_list (map g ys)" if "x \<in> set ys" using Cons that by simp
  ultimately show ?case using Cons.prems(2,3) by (cases "x = y") auto
qed

lemma waiting_turn:
  assumes "distinct (map uid (nodes S))" "x \<in> set (nodes S)" "inbox x' = tl (inbox x)" "inbox x \<noteq> []"
  shows "waiting (turn S x x' []) < waiting S"
proof -
  have "sum_list (map (\<lambda>n. length (inbox (take_round x x' [] n))) (nodes S)) < sum_list (map (\<lambda>n. length (inbox n)) (nodes S))"
  proof (rule sum_list_less [OF _ assms(2)])
    show "length (inbox (take_round x x' [] n)) \<le> length (inbox n)" if "n \<in> set (nodes S)" for n
      using same_uid [OF assms(1) that assms(2)] assms(3) by auto
    show "length (inbox (take_round x x' [] x)) < length (inbox x)" using assms(3,4) by simp
  qed
  then show ?thesis by (simp add: waiting_def turn_def o_def)
qed

lemma hear_progress:
  assumes t: "timely w S" and x: "x \<in> set (nodes S)" and i: "inbox x = m # ms" and un: "unheard S = {}"
  defines "S' \<equiv> turn S x (hear m x) (hello x @ reply m x)"
  shows "card (unknown S') < card (unknown S) \<or> card (unknown S') \<le> card (unknown S) \<and> waiting S' < waiting S"
proof -
  have l: "leads w S S'" unfolding S'_def by (rule hear_leads [OF t x i])
  have sub: "unknown S' \<subseteq> unknown S" by (rule unknown_leads [OF l])
  have self: "knows x (uid x)" using un x by (auto simp: unheard_def)
  show ?thesis
  proof (cases "command m = CHR ''C'' \<and> \<not> knows x (uuid m)")
    case True
    have "true_msg S m"
      using disc_invD(2) [OF timelyD(1) [OF t] x] True i by (auto simp: node_inv_def)
    then have "uuid m \<in> uid ` set (nodes S)" by (auto simp: true_msg_def)
    with True x have "(uid x, uuid m) \<in> unknown S" by (auto simp: unknown_def)
    moreover have "(uid x, uuid m) \<notin> unknown S'"
    proof -
      obtain y where y: "y \<in> set (nodes S')" "knows y (uuid m)" "uid y = uid x"
      proof (rule that)
        show "(hear m x)\<lparr>inbox := inbox (hear m x) @ map (say x) (hello x @ reply m x)\<rparr> \<in> set (nodes S')"
          unfolding S'_def by (rule turn_node [OF x])
      qed (use True timelyD(6) [OF t x] in \<open>simp_all add: uid_def hear_def sm_laws\<close>)
      have "distinct (map uid (nodes S'))"
        using disc_invD(1) [OF timelyD(1), of w S'] l by (simp add: leads_def)
      then have "n = y" if "n \<in> set (nodes S')" "uid n = uid x" for n
        using same_uid [OF _ that(1) y(1)] that(2) y(3) by simp
      then show ?thesis using y(2) by (auto simp: unknown_def)
    qed
    ultimately have "unknown S' \<subset> unknown S" using sub by blast
    then show ?thesis using psubset_card_mono [OF finite_unknown] by blast
  next
    case False
    then have "reply m x = []" "hello x = []" using self by (auto simp: reply_def hello_def)
    then have "waiting S' < waiting S"
      using waiting_turn [OF disc_invD(1) [OF timelyD(1) [OF t]] x, of "hear m x"] i
      by (simp add: S'_def hear_def)
    then show ?thesis using card_mono [OF finite_unknown sub] by blast
  qed
qed

lemma settles: "timely w S \<Longrightarrow> unheard S = {} \<Longrightarrow> \<exists>S'. leads w S S' \<and> quiet S' \<and> unheard S' = {}"
proof (induction S rule: wf_induct_rule [OF wf_measures [of "[\<lambda>S. card (unknown S), waiting]"]])
  case (1 S)
  show ?case
  proof (cases "quiet S")
    case True
    with 1 leads_refl show ?thesis by blast
  next
    case False
    then obtain x where x: "x \<in> set (nodes S)" "inbox x \<noteq> []" by (auto simp: quiet_def list_all_iff)
    then obtain m ms where i: "inbox x = m # ms" by (cases "inbox x") auto
    let ?S = "turn S x (hear m x) (hello x @ reply m x)"
    have l: "leads w S ?S" by (rule hear_leads [OF 1(2) x(1) i])
    have "(?S, S) \<in> measures [\<lambda>S. card (unknown S), waiting]"
      using hear_progress [OF 1(2) x(1) i 1(3)] by auto
    moreover have "timely w ?S" using l by (simp add: leads_def)
    moreover have "unheard ?S = {}" using unheard_leads [OF l] 1(3) by blast
    ultimately show ?thesis using 1(1) leads_trans [OF l] by blast
  qed
qed

lemma quiet_there:
  assumes "command w = CHR ''W''" "discovery w S" "quiet S"
    and "a \<in> set (nodes S)" "\<not> gone a" "knows a u"
  shows "\<exists>b \<in> set (nodes S). uid b = u \<and> \<not> gone b \<and> map_of (peers (pstate a)) u = Some (pubEndpoint (who b))"
proof -
  note inv = discovery_inv [OF assms(1,2)]
  have "heard a = map_of (peers (pstate a))"
    using assms(3-5) by (auto simp: quiet_def list_all_iff heard_def)
  then show ?thesis
    using node_inv_heard [OF disc_invD(2) [OF inv assms(4)] assms(5)] assms(6) by auto
qed

lemma quiet_knows:
  assumes "command w = CHR ''W''" "discovery w S" "quiet S"
    and ab: "a \<in> set (nodes S)" "b \<in> set (nodes S)" "\<not> late (clock S) a \<and> \<not> late (clock S) b \<and> knows a (uid a) \<and> knows b (uid b)"
  shows "map_of (peers (pstate a)) (uid b) = Some (pubEndpoint (who b))"
proof -
  note inv = discovery_inv [OF assms(1,2)]
  have there: "\<not> gone n" if "n \<in> {a, b}" for n
    using disc_invD(2) [OF inv, of n] that ab by (auto simp: node_inv_def)
  then have heard: "heard n = map_of (peers (pstate n))" if "n \<in> {a, b}" for n
    using that ab assms(3) by (auto simp: quiet_def list_all_iff heard_def)
  have "knows a (uid b)"
    using disc_invD(3) [OF inv ab(1,2)] disc_invD(3) [OF inv ab(2,1)] ab(3) heard
    unfolding pair_inv_def by auto
  from quiet_there [OF assms(1-4) _ this] there obtain b' where
    "b' \<in> set (nodes S)" "uid b' = uid b" "map_of (peers (pstate a)) (uid b) = Some (pubEndpoint (who b'))" by blast
  with same_uid [OF disc_invD(1) [OF inv] _ ab(2), of b'] show ?thesis by simp
qed

section \<open>The properties\<close>

definition peer_b :: self where
  "peer_b = \<lparr>theUuid = ''b'', pubEndpoint = ''tcp://2''\<rparr>"

definition welcome_a :: connect_msg where
  "welcome_a = \<lparr>command = CHR ''W'', uuid = ''p'', endpoint = ''tcp://9''\<rparr>"

text \<open>A system in which both peers are up, after messages of both were lost.\<close>

definition crossing :: "disc_event list" where
  "crossing =
    [Join params_init peer_a 0, Join params_init peer_b 0,
     Round ''a'' (tick_at 0 welcome_a), Round ''a'' (quiet_tick 0), Link_Up ''a'',
     Round ''b'' (tick_at 0 welcome_a), Round ''b'' (quiet_tick 0), Round ''a'' (quiet_tick 0), Link_Up ''b'']"

lemma self_ok_peer_b [simp]: "self_ok peer_b"
  by (simp add: self_ok_def peer_b_def sendable_def layout_defs)



lemma meeting_simps [simp]:
  "theUuid peer_a = ''a''" "theUuid peer_b = ''b''" "pubEndpoint peer_a = ''tcp://1''" "pubEndpoint peer_b = ''tcp://2''"
  "command (msg_a c) = c" "command (msg_b c) = c" "uuid (msg_a c) = ''a''" "uuid (msg_b c) = ''b''"
  "command welcome_a = CHR ''W''" "sendable_msg welcome_a"
  "\<lparr>command = c, uuid = ''a'', endpoint = ''tcp://1''\<rparr> = msg_a c"
  "\<lparr>command = c, uuid = ''b'', endpoint = ''tcp://2''\<rparr> = msg_b c"
  by (simp_all add: peer_a_def peer_b_def msg_a_def msg_b_def welcome_a_def sendable_msg_def sendable_def layout_defs)





text \<open>
  C4. Discovery can always complete. From every system that can come about and in which each
  peer has its connection to the proxy and time left, rounds of the peers alone lead to a
  system where no message is waiting and every peer knows every peer, itself included,
  under the endpoint it publishes: no interleaving before can have shut one out.
\<close>

theorem discovery_completes:
  assumes "command w = CHR ''W''" "sendable_msg w" "discovery w S" "in_time S"
  shows "\<exists>es S'. list_all is_round es \<and> disc_run w es S = Some S' \<and> quiet S'
    \<and> map uid (nodes S') = map uid (nodes S)
    \<and> (\<forall>a \<in> set (nodes S'). \<forall>b \<in> set (nodes S').
         map_of (peers (pstate a)) (uid b) = Some (pubEndpoint (who b)))"
proof -
  have "timely w S" using assms by (simp add: timely_def)
  from all_hear_themselves [OF this] obtain S1 where l1: "leads w S S1" "unheard S1 = {}" by blast
  then have "timely w S1" by (simp add: leads_def)
  from settles [OF this l1(2)] obtain S' where l2: "leads w S1 S'" "quiet S'" "unheard S' = {}" by blast
  have l: "leads w S S'" by (rule leads_trans [OF l1(1) l2(1)])
  then have t: "timely w S'" by (simp add: leads_def)
  have "knows n (uid n)" if "n \<in> set (nodes S')" for n
    using l2(3) that by (auto simp: unheard_def)
  then have "map_of (peers (pstate a)) (uid b) = Some (pubEndpoint (who b))"
    if "a \<in> set (nodes S')" "b \<in> set (nodes S')" for a b
    using quiet_knows [of w S' a b] t l2(2) that timelyD(3) [OF t] by (auto simp: timely_def)
  with l l2(2) leads_grown(2) [OF l] show ?thesis unfolding leads_def by blast
qed

lemma crossing_runs:
  "\<exists>S. disc_run welcome_a crossing (disc_init 0) = Some S \<and> in_time S \<and> map uid (nodes S) = [''a'', ''b'']"
  using self_ok_peer_a self_ok_peer_b
  by (simp add: crossing_def Let_def disc_init_def uid_def late_def in_time_def round_hear round_idle take_round_def
    link_node_def hear_def hello_def reply_def say_def)

theorem discovery_completes_witness:
  "\<exists>S es S'. disc_run welcome_a crossing (disc_init 0) = Some S \<and> disc_run welcome_a es S = Some S'
     \<and> map uid (nodes S') = [''a'', ''b'']
     \<and> (\<forall>a \<in> set (nodes S'). \<forall>b \<in> set (nodes S').
          map_of (peers (pstate a)) (uid b) = Some (pubEndpoint (who b)))"
proof -
  obtain S where S: "disc_run welcome_a crossing (disc_init 0) = Some S" "in_time S"
    "map uid (nodes S) = [''a'', ''b'']" using crossing_runs by (elim exE conjE) (rule that)
  have "list_all joins_ok crossing"
    by (simp add: crossing_def Let_def joins_ok_def)
  from disc_run_discovery [OF discovery.start this S(1)] have "discovery welcome_a S" .
  from discovery_completes [OF _ _ this S(2)] S show ?thesis by (metis meeting_simps(9,10))
qed

end
