(* ===== verification/Threads_Common.thy ===== *)
theory Threads_Common
  imports Std_Map Arg_Parser Zmq_Calls Event_Loop
begin

section \<open>threads/common.h\<close>

text \<open>
  The four programs of threads/ start a number of command threads, each of which sends a
  series of numbered PING messages to the main loop, and check at the end that the loop has
  received them all in order. threads/common.h holds what they share: the two maps from
  threads to message numbers, the flag \<^verbatim>\<open>failed\<close>, the command thread's loop, the handling
  of a control message, the check of the results and the command line.
\<close>

subsection \<open>Threads and messages\<close>

text \<open>
  A thread is identified by the address of its entry in the array \<^verbatim>\<open>commandThread\<close>, which
  is ordered by its index; the exit message carries a null pointer.
\<close>

datatype ptr = Null | Command_Thread nat

instantiation ptr :: linorder
begin

definition less_eq_ptr :: "ptr \<Rightarrow> ptr \<Rightarrow> bool" where
  "less_eq_ptr p q \<longleftrightarrow>
     (case p of Null \<Rightarrow> True | Command_Thread i \<Rightarrow> (case q of Null \<Rightarrow> False | Command_Thread j \<Rightarrow> i \<le> j))"

definition less_ptr :: "ptr \<Rightarrow> ptr \<Rightarrow> bool" where
  "less_ptr p q \<longleftrightarrow>
     (case q of Null \<Rightarrow> False | Command_Thread j \<Rightarrow> (case p of Null \<Rightarrow> True | Command_Thread i \<Rightarrow> i < j))"

instance
proof
  fix p q r :: ptr
  show "(p < q) = (p \<le> q \<and> \<not> q \<le> p)" by (cases p; cases q) (auto simp: less_eq_ptr_def less_ptr_def)
  show "p \<le> p" by (cases p) (auto simp: less_eq_ptr_def)
  show "p \<le> q \<Longrightarrow> q \<le> r \<Longrightarrow> p \<le> r" by (cases p; cases q; cases r) (auto simp: less_eq_ptr_def)
  show "p \<le> q \<Longrightarrow> q \<le> p \<Longrightarrow> p = q" by (cases p; cases q) (auto simp: less_eq_ptr_def)
  show "p \<le> q \<or> q \<le> p" by (cases p; cases q) (auto simp: less_eq_ptr_def)
qed

end

record control_msg =
  msg_command :: char
  voidArg :: ptr
  longArg :: int

abbreviation PING_COMMAND :: char where "PING_COMMAND \<equiv> CHR ''P''"
abbreviation EXIT_COMMAND :: char where "EXIT_COMMAND \<equiv> CHR ''X''"

text \<open>The size of the structure: a character, padding, a pointer and a long.\<close>

definition control_msg_size :: nat where
  "control_msg_size = 24"

definition msg_bytes :: "control_msg \<Rightarrow> nat" where
  "msg_bytes m = control_msg_size"

abbreviation CONTROL_ENDPOINT :: string where "CONTROL_ENDPOINT \<equiv> ''inproc://control''"
abbreviation DATA_ENDPOINT :: string where "DATA_ENDPOINT \<equiv> ''tcp://127.0.0.1:5101''"

subsection \<open>Globals and the command line\<close>

record thread_params =
  debugFlag :: bool
  quietFlag :: bool
  tp_pollFlag :: bool
  sleepDuration :: int
  numMsgs :: int
  numThreads :: int
  dontWaitFlag :: bool
  tp_linger :: int
  msgSleep :: int
  mutexFlag :: bool

definition thread_params_init :: thread_params where
  "thread_params_init = \<lparr>debugFlag = False, quietFlag = False, tp_pollFlag = False, sleepDuration = 1,
     numMsgs = 1000, numThreads = 10, dontWaitFlag = False, tp_linger = 30000, msgSleep = 0,
     mutexFlag = False\<rparr>"

text \<open>
  \<open>rate_sleep\<close> is \<^verbatim>\<open>(1.0 / rate) * 1000000\<close> converted to an \<^verbatim>\<open>int\<close>: the quotient and the product
  are rounded to 53 bits, to nearest and ties to even, the result is cut off towards zero.
  For \<^verbatim>\<open>rate\<close> 0 the product is infinite, which the conversion turns into the least \<^verbatim>\<open>int\<close>
  on the processors the programs are built for.
\<close>

definition div_even :: "int \<Rightarrow> int \<Rightarrow> int" where
  "div_even a b =
     (let q = a div b; r = a mod b
      in if 2 * r < b \<or> 2 * r = b \<and> even q then q else q + 1)"

function bit_len :: "int \<Rightarrow> nat" where
  "bit_len n = (if n \<le> 0 then 0 else Suc (bit_len (n div 2)))"
  by pat_completeness auto
termination by (relation "measure nat") auto

declare bit_len.simps [simp del]

definition rate_sleep_pos :: "int \<Rightarrow> int" where
  "rate_sleep_pos rate =
     (let k = 52 + bit_len (rate - 1);
          quot = div_even (2 ^ k) rate;
          prod = quot * 1000000;
          s = bit_len prod - 53
      in (div_even prod (2 ^ s) * 2 ^ s) div 2 ^ k)"

definition rate_sleep :: "int \<Rightarrow> int" where
  "rate_sleep rate = (if rate = 0 then - (2 ^ 31) else sgn rate * rate_sleep_pos \<bar>rate\<bar>)"

definition same_nocase :: "string \<Rightarrow> string \<Rightarrow> bool" where
  "same_nocase opt arg \<longleftrightarrow> strcasecmp opt arg = 0"

definition thread_options :: "((string \<Rightarrow> bool) \<times> thread_params opt_action) list" where
  "thread_options =
    [(same_nocase ''-sleep'', Take_Int (\<lambda>n p. p\<lparr>sleepDuration := n\<rparr>)),
     (same_nocase ''-msgs'', Take_Int (\<lambda>n p. p\<lparr>numMsgs := n\<rparr>)),
     (same_nocase ''-linger'', Take_Int (\<lambda>n p. p\<lparr>tp_linger := n\<rparr>)),
     (same_nocase ''-rate'', Take_Int (\<lambda>n p. p\<lparr>msgSleep := rate_sleep n\<rparr>)),
     (same_nocase ''-threads'', Take_Int (\<lambda>n p. p\<lparr>numThreads := n\<rparr>)),
     ((\<lambda>arg. ''-debug'' = arg), Set_Flag (\<lambda>p. p\<lparr>debugFlag := True\<rparr>)),
     ((\<lambda>arg. ''-mutex'' = arg), Set_Flag (\<lambda>p. p\<lparr>mutexFlag := True\<rparr>)),
     ((\<lambda>arg. ''-poll'' = arg), Set_Flag (\<lambda>p. p\<lparr>tp_pollFlag := True\<rparr>)),
     ((\<lambda>arg. ''-nowait'' = arg), Set_Flag (\<lambda>p. p\<lparr>dontWaitFlag := True\<rparr>)),
     ((\<lambda>arg. ''-quiet'' = arg), Set_Flag (\<lambda>p. p\<lparr>quietFlag := True\<rparr>))]"

definition threads_parseParams :: "string list \<Rightarrow> (fault + thread_params) option" where
  "threads_parseParams argv = args_loop (Suc (length argv)) (else_if_chain thread_options) argv (0, thread_params_init)"

subsection \<open>Checked calls\<close>

text \<open>
  \<^verbatim>\<open>checkVoid\<close> aborts on a null pointer, \<^verbatim>\<open>checkInt\<close> on a negative number. A socket gets the
  linger period right after it is made.
\<close>

definition checkVoid :: "'m returns \<Rightarrow> 'm zcall \<Rightarrow> fault + 'm zcall list" where
  "checkVoid ret c = assert_nonnull ret c"

definition checkInt :: "'m returns \<Rightarrow> 'm zcall \<Rightarrow> fault + 'm zcall list" where
  "checkInt ret c = assert_nonneg ret c"

definition createSocket :: "'m returns \<Rightarrow> thread_params \<Rightarrow> handle \<Rightarrow> kind \<Rightarrow> fault + 'm zcall list" where
  "createSocket ret tp h k =
     stmts [checkVoid ret (Socket h k), Inr [Setsockopt h (Linger (tp_linger tp))]]"

definition closeSocket :: "'m returns \<Rightarrow> handle \<Rightarrow> fault + 'm zcall list" where
  "closeSocket ret h = checkInt ret (Close h)"

subsection \<open>The state of the test\<close>

record shared =
  keepGoing :: bool
  failed :: bool
  maxControlMsgSent :: "(ptr, int) stdmap"
  maxControlMsgReceived :: "(ptr, int) stdmap"

definition shared_init :: shared where
  "shared_init = \<lparr>keepGoing = True, failed = False, maxControlMsgSent = [], maxControlMsgReceived = []\<rparr>"

text \<open>The counters are set to zero for each thread before the first one starts.\<close>

definition init_counters :: "nat \<Rightarrow> shared \<Rightarrow> shared" where
  "init_counters n s =
     fold (\<lambda>i s. s\<lparr>maxControlMsgSent := sm_put (Command_Thread i) 0 (maxControlMsgSent s),
                   maxControlMsgReceived := sm_put (Command_Thread i) 0 (maxControlMsgReceived s)\<rparr>)
       [0..<n] s"

definition sendControlMsg :: "char \<Rightarrow> ptr \<Rightarrow> int \<Rightarrow> control_msg" where
  "sendControlMsg command v l = \<lparr>msg_command = command, voidArg = v, longArg = l\<rparr>"

text \<open>
  One round of \<^verbatim>\<open>commandLoop\<close>, entered when \<^verbatim>\<open>keepGoing\<close> holds: the state, the message it
  sends and whether it was the last.
\<close>

definition commandLoop_round :: "thread_params \<Rightarrow> ptr \<Rightarrow> shared \<Rightarrow> shared \<times> control_msg \<times> bool" where
  "commandLoop_round tp threadAddr s =
     (case sm_index 0 (maxControlMsgSent s) threadAddr of
        (n, sent) \<Rightarrow>
          let nextMsgNum = n + 1 in
          (s\<lparr>maxControlMsgSent := sm_put threadAddr nextMsgNum sent\<rparr>,
           sendControlMsg PING_COMMAND threadAddr nextMsgNum,
           nextMsgNum \<ge> numMsgs tp))"

definition processControlMsg :: "control_msg \<Rightarrow> shared \<Rightarrow> shared" where
  "processControlMsg m s =
     (if msg_command m = EXIT_COMMAND then s\<lparr>keepGoing := False\<rparr>
      else if msg_command m = PING_COMMAND then
        (case sm_index 0 (maxControlMsgReceived s) (voidArg m) of
           (maxMsgNum, received) \<Rightarrow>
             let s1 = s\<lparr>maxControlMsgReceived := received\<rparr>;
                 s2 = (if longArg m \<noteq> maxMsgNum + 1 then s1\<lparr>failed := True\<rparr> else s1)
             in if longArg m > maxMsgNum
                then s2\<lparr>maxControlMsgReceived := sm_put (voidArg m) (longArg m) received\<rparr>
                else s2)
      else s)"

definition checkResults :: "thread_params \<Rightarrow> shared \<Rightarrow> shared" where
  "checkResults tp s =
     (let s1 = (if list_ex (\<lambda>(t, n). n \<noteq> numMsgs tp) (maxControlMsgSent s) then s\<lparr>failed := True\<rparr> else s)
      in if list_ex (\<lambda>(t, n). n \<noteq> numMsgs tp) (maxControlMsgReceived s1) then s1\<lparr>failed := True\<rparr> else s1)"

text \<open>
  \<^verbatim>\<open>printResults\<close> reads the received numbers with \<^verbatim>\<open>operator[]\<close>, which enters a zero for a
  thread that has none: the lines printed and the state after it.
\<close>

definition printResults :: "thread_params \<Rightarrow> shared \<Rightarrow> (ptr \<times> int \<times> int) list \<times> shared" where
  "printResults tp s =
     fold (\<lambda>(t, n) (lines, s).
         case sm_index 0 (maxControlMsgReceived s) t of
           (r, received) \<Rightarrow>
             (if \<not> quietFlag tp \<or> r \<noteq> n then (lines @ [(t, n, r)], s\<lparr>maxControlMsgReceived := received\<rparr>)
              else (lines, s\<lparr>maxControlMsgReceived := received\<rparr>)))
       (maxControlMsgSent s) ([], s)"

definition exit_code :: "thread_params \<Rightarrow> shared \<Rightarrow> int" where
  "exit_code tp s = (if failed (snd (printResults tp (checkResults tp s))) then 1 else 0)"

subsection \<open>The main loop\<close>

text \<open>
  The loop of \<^verbatim>\<open>mainLoop\<close>, the same text in all four programs. A round gets the result of
  poll, the readiness of the two sockets and the control message received, \<open>None\<close> when the
  receive failed.
\<close>

record main_input =
  poll_rc :: int
  control_ready :: bool
  data_ready :: bool
  control_in :: "control_msg option"

definition main_iter :: "(main_input, shared, control_msg zcall, fault) iteration" where
  "main_iter i s =
     (let polled = Poll [Var ''controlSub'', Var ''dataSub''] (-1) in
      if \<not> keepGoing s then Inr (s, [], True)
      else if poll_rc i < 0 then Inr (s, [polled], True)
      else if control_ready i then
        Inr (case control_in i of None \<Rightarrow> s | Some m \<Rightarrow> processControlMsg m s,
             [polled, Recv (Var ''controlSub'') False], False)
      else if data_ready i then Inr (s, [polled, Recv (Var ''dataSub'') False], False)
      else Inr (s, [polled], False))"

end
