(* ===== verification/Threads_Senders.thy ===== *)
theory Threads_Senders
  imports Threads_Common
begin

section \<open>The four programs of threads/\<close>

text \<open>
  pairs.cpp, pubsub.cpp, pushpull.cpp and clientserver.cpp each implement \<^verbatim>\<open>sendCommand\<close>
  with a pair of socket types. In the first three a thread keeps its socket in thread-local
  storage: \<open>has\<close> says whether it has one yet, \<open>Tls t\<close> is the socket. In the last all threads
  share one client socket.
\<close>

abbreviation th_controlSub :: handle where "th_controlSub \<equiv> Var ''controlSub''"
abbreviation th_controlPub :: handle where "th_controlPub \<equiv> Var ''controlPub''"
abbreviation th_dataSub :: handle where "th_dataSub \<equiv> Var ''dataSub''"

type_synonym sender = "bool \<Rightarrow> control_msg \<Rightarrow> fault + control_msg zcall list"

definition send_all :: "control_msg returns \<Rightarrow> handle \<Rightarrow> control_msg \<Rightarrow> bool \<Rightarrow> fault + control_msg zcall list" where
  "send_all ret h m nowait =
     assert_that (0 \<le> ret (Send h m nowait) \<and> ret (Send h m nowait) = int (msg_bytes m)) (Send h m nowait)"

definition pairs_sendCommand :: "control_msg returns \<Rightarrow> thread_params \<Rightarrow> nat \<Rightarrow> sender" where
  "pairs_sendCommand ret tp t has m = stmts
     [if_then (\<not> has) (stmts [createSocket ret tp (Tls t) ZMQ_PAIR, checkInt ret (Tls_Set t (Tls t))]),
      if_then (mutexFlag tp) (checkInt ret Mutex_Lock),
      checkInt ret (Connect (Tls t) CONTROL_ENDPOINT),
      if_then (tp_pollFlag tp) (checkInt ret (Poll [Tls t] 1)),
      send_all ret (Tls t) m (dontWaitFlag tp),
      checkInt ret (Disconnect (Tls t) CONTROL_ENDPOINT),
      if_then (mutexFlag tp) (checkInt ret Mutex_Unlock)]"

definition pubsub_sendCommand :: "control_msg returns \<Rightarrow> thread_params \<Rightarrow> nat \<Rightarrow> sender" where
  "pubsub_sendCommand ret tp t has m = stmts
     [if_then (\<not> has) (stmts
        [createSocket ret tp (Tls t) ZMQ_PUB,
         checkInt ret (Connect (Tls t) CONTROL_ENDPOINT),
         if_then (tp_pollFlag tp) (checkInt ret (Poll [Tls t] 1)),
         checkInt ret (Tls_Set t (Tls t))]),
      send_all ret (Tls t) m False,
      if_then (tp_pollFlag tp) (checkInt ret (Poll [Tls t] 1))]"

definition pushpull_sendCommand :: "control_msg returns \<Rightarrow> thread_params \<Rightarrow> nat \<Rightarrow> sender" where
  "pushpull_sendCommand ret tp t has m = stmts
     [if_then (\<not> has) (stmts
        [createSocket ret tp (Tls t) ZMQ_PUSH,
         checkInt ret (Connect (Tls t) CONTROL_ENDPOINT),
         if_then (tp_pollFlag tp) (checkInt ret (Poll [Tls t] 1)),
         checkInt ret (Tls_Set t (Tls t))]),
      send_all ret (Tls t) m False,
      if_then (tp_pollFlag tp) (checkInt ret (Poll [Tls t] 1))]"

definition clientserver_sendCommand :: "control_msg returns \<Rightarrow> thread_params \<Rightarrow> nat \<Rightarrow> sender" where
  "clientserver_sendCommand ret tp t has m = send_all ret th_controlPub m False"

subsection \<open>The command thread\<close>

text \<open>
  \<^verbatim>\<open>commandLoop\<close> as a loop: a round gets the value of \<^verbatim>\<open>keepGoing\<close> its test reads; the state is
  the shared one and whether the thread has its socket.
\<close>

definition command_iter ::
  "thread_params \<Rightarrow> ptr \<Rightarrow> sender \<Rightarrow> (bool, shared \<times> bool, control_msg zcall, fault) iteration" where
  "command_iter tp threadAddr send going st =
     (case st of (s, has) \<Rightarrow>
        if \<not> going then Inr ((s, has), [], True)
        else (case commandLoop_round tp threadAddr s of
                (s', m, done) \<Rightarrow>
                  bind_res (send has m) (\<lambda>calls.
                    Inr ((s', True), calls @ [Usleep (msgSleep tp)], done))))"

text \<open>What \<^verbatim>\<open>shutdownFunc\<close> sends, from a thread of its own.\<close>

definition shutdownFunc :: "sender \<Rightarrow> fault + control_msg zcall list" where
  "shutdownFunc send = send False (sendControlMsg EXIT_COMMAND Null 0)"

subsection \<open>The main loop and the main function\<close>

definition mainLoop_open ::
  "control_msg returns \<Rightarrow> thread_params \<Rightarrow> (handle \<times> kind \<times> bool) option \<Rightarrow> fault + control_msg zcall list" where
  "mainLoop_open ret tp control =
     (case control of
        None \<Rightarrow> stmts [createSocket ret tp th_dataSub ZMQ_SUB, checkInt ret (Bind th_dataSub DATA_ENDPOINT)]
      | Some (h, k, subscribe) \<Rightarrow> stmts
          [createSocket ret tp h k,
           if_then subscribe (checkInt ret (Setsockopt h (Subscribe []))),
           checkInt ret (Bind h CONTROL_ENDPOINT),
           createSocket ret tp th_dataSub ZMQ_SUB,
           checkInt ret (Bind th_dataSub DATA_ENDPOINT)])"

definition mainLoop ::
  "control_msg returns \<Rightarrow> thread_params \<Rightarrow> (handle \<times> kind \<times> bool) option \<Rightarrow> main_input list \<Rightarrow> shared
     \<Rightarrow> fault + shared \<times> control_msg zcall list \<times> bool" where
  "mainLoop ret tp control inputs s =
     bind_res (mainLoop_open ret tp control) (\<lambda>opened.
     bind_res (run_loop main_iter inputs s) (\<lambda>(s', acts, stopped).
       if stopped then
         bind_res (stmts ((case control of None \<Rightarrow> [] | Some (h, k, b) \<Rightarrow> [closeSocket ret h])
                          @ [closeSocket ret th_dataSub])) (\<lambda>closed.
           Inr (s', opened @ acts @ closed, True))
       else Inr (s', opened @ acts, False)))"

text \<open>The socket each program's main loop binds; clientserver.cpp has made it before.\<close>

definition pairs_control :: "(handle \<times> kind \<times> bool) option" where
  "pairs_control = Some (th_controlSub, ZMQ_PAIR, False)"

definition pubsub_control :: "(handle \<times> kind \<times> bool) option" where
  "pubsub_control = Some (th_controlSub, ZMQ_SUB, True)"

definition pushpull_control :: "(handle \<times> kind \<times> bool) option" where
  "pushpull_control = Some (th_controlSub, ZMQ_PULL, False)"

definition clientserver_control :: "(handle \<times> kind \<times> bool) option" where
  "clientserver_control = None"

definition pairs_mainLoop ::
  "control_msg returns \<Rightarrow> thread_params \<Rightarrow> main_input list \<Rightarrow> shared \<Rightarrow> fault + shared \<times> control_msg zcall list \<times> bool" where
  "pairs_mainLoop ret tp = mainLoop ret tp pairs_control"

definition pubsub_mainLoop ::
  "control_msg returns \<Rightarrow> thread_params \<Rightarrow> main_input list \<Rightarrow> shared \<Rightarrow> fault + shared \<times> control_msg zcall list \<times> bool" where
  "pubsub_mainLoop ret tp = mainLoop ret tp pubsub_control"

definition pushpull_mainLoop ::
  "control_msg returns \<Rightarrow> thread_params \<Rightarrow> main_input list \<Rightarrow> shared \<Rightarrow> fault + shared \<times> control_msg zcall list \<times> bool" where
  "pushpull_mainLoop ret tp = mainLoop ret tp pushpull_control"

definition clientserver_mainLoop ::
  "control_msg returns \<Rightarrow> thread_params \<Rightarrow> main_input list \<Rightarrow> shared \<Rightarrow> fault + shared \<times> control_msg zcall list \<times> bool" where
  "clientserver_mainLoop ret tp = mainLoop ret tp clientserver_control"

text \<open>
  \<^verbatim>\<open>main\<close> of the first three programs, the same but for the socket types, and of the last:
  the calls of the main thread. The results of creating and joining a thread are not looked
  at. The exit code is that of \<open>exit_code\<close>.
\<close>

definition thread_names :: "thread_params \<Rightarrow> string list" where
  "thread_names tp = map (\<lambda>i. ''commandThread'' @ dec_of_nat i) [0..<nat (numThreads tp)]"

definition threads_main_calls :: "control_msg returns \<Rightarrow> thread_params \<Rightarrow> fault + control_msg zcall list" where
  "threads_main_calls ret tp = stmts
     [checkVoid ret Ctx_New,
      checkInt ret (Ctx_Set_Blocky False),
      Inr ([Thread_Create ''mainThread''] @ map Thread_Create (thread_names tp)
           @ map Thread_Join (thread_names tp)
           @ [Usleep (sleepDuration tp * 1000000),
              Thread_Create ''shutdownThread'', Thread_Join ''shutdownThread'', Thread_Join ''mainThread'']),
      checkInt ret Ctx_Term]"

definition clientserver_main_calls :: "control_msg returns \<Rightarrow> thread_params \<Rightarrow> fault + control_msg zcall list" where
  "clientserver_main_calls ret tp = stmts
     [checkVoid ret Ctx_New,
      checkInt ret (Ctx_Set_Blocky False),
      createSocket ret tp th_controlSub ZMQ_SERVER,
      checkInt ret (Bind th_controlSub CONTROL_ENDPOINT),
      createSocket ret tp th_controlPub ZMQ_CLIENT,
      checkInt ret (Connect th_controlPub CONTROL_ENDPOINT),
      if_then (tp_pollFlag tp) (checkInt ret (Poll [th_controlPub] 1)),
      Inr ([Thread_Create ''mainThread''] @ map Thread_Create (thread_names tp)
           @ map Thread_Join (thread_names tp) @ [Usleep (sleepDuration tp * 1000000)]),
      clientserver_sendCommand ret tp 0 True (sendControlMsg EXIT_COMMAND Null 0),
      Inr [Thread_Join ''mainThread''],
      checkInt ret (Close th_controlPub),
      checkInt ret (Close th_controlSub),
      checkInt ret Ctx_Term]"

text \<open>
  A complete \<^verbatim>\<open>main\<close>: the command line, the calls, and the exit code computed from the state
  \<open>s\<close> the threads have left. The text is the same in the first three files.
\<close>

definition main_with ::
  "(thread_params \<Rightarrow> fault + control_msg zcall list) \<Rightarrow> string list \<Rightarrow> shared \<Rightarrow> (fault + control_msg zcall list \<times> int) option" where
  "main_with body argv s = map_option (\<lambda>parsed.
     bind_res parsed (\<lambda>tp. bind_res (body tp) (\<lambda>calls. Inr (calls, exit_code tp s)))) (threads_parseParams argv)"

definition pairs_main :: "control_msg returns \<Rightarrow> string list \<Rightarrow> shared \<Rightarrow> (fault + control_msg zcall list \<times> int) option" where
  "pairs_main ret = main_with (threads_main_calls ret)"

definition pubsub_main :: "control_msg returns \<Rightarrow> string list \<Rightarrow> shared \<Rightarrow> (fault + control_msg zcall list \<times> int) option" where
  "pubsub_main ret = main_with (threads_main_calls ret)"

definition pushpull_main :: "control_msg returns \<Rightarrow> string list \<Rightarrow> shared \<Rightarrow> (fault + control_msg zcall list \<times> int) option" where
  "pushpull_main ret = main_with (threads_main_calls ret)"

definition clientserver_main :: "control_msg returns \<Rightarrow> string list \<Rightarrow> shared \<Rightarrow> (fault + control_msg zcall list \<times> int) option" where
  "clientserver_main ret = main_with (clientserver_main_calls ret)"

section \<open>The contract of sendCommand\<close>

text \<open>
  The pings a command thread sends after \<open>n\<close>, and how many: as many as are missing to the
  number asked for, but one at least, since the test comes after the send.
\<close>

definition pings :: "ptr \<Rightarrow> int \<Rightarrow> nat \<Rightarrow> control_msg list" where
  "pings a n k = map (\<lambda>i. sendControlMsg PING_COMMAND a (n + 1 + int i)) [0..<k]"

definition command_rounds :: "thread_params \<Rightarrow> int \<Rightarrow> nat" where
  "command_rounds tp n = nat (max 1 (numMsgs tp - n))"

lemma pings_Suc: "pings a n (Suc k) = sendControlMsg PING_COMMAND a (n + 1) # pings a (n + 1) k"
  by (simp add: pings_def upt_conv_Cons map_Suc_upt [symmetric] comp_def algebra_simps del: upt_Suc)

text \<open>
  What the command thread relies on, whichever program it is part of: a send that is the
  thread's first leaves its socket open, a later one finds it so, and each sends the given
  message once, on that socket, and nothing else.
\<close>

locale control_sender =
  fixes send :: "bool \<Rightarrow> control_msg \<Rightarrow> fault + control_msg zcall list"
    and sock :: handle
    and nowait :: bool
    and before :: "handle list"
    and after :: "handle list"
  assumes sends: "send has m = Inr cs \<Longrightarrow> sends_on sock cs = [Send sock m nowait]"
    and opens: "send False m = Inr cs \<Longrightarrow> track cs before = Some after"
    and keeps: "send True m = Inr cs \<Longrightarrow> track cs after = Some after"
begin

lemma send_round:
  assumes "send has m = Inr cs"
  shows "track cs (if has then after else before) = Some after"
  using assms opens keeps by (cases has) auto

lemma command_run:
  assumes total: "\<And>has m. \<exists>cs. send has m = Inr cs"
    and "sm_wf (maxControlMsgSent s)" "map_of (maxControlMsgSent s) a = Some n"
    and "list_all (\<lambda>b. b) goings" "length goings \<ge> command_rounds tp n"
  shows "\<exists>s' acts. run_loop (command_iter tp a send) goings (s, has) = Inr ((s', True), acts, True)
    \<and> sends_on sock acts = map (\<lambda>m. Send sock m nowait) (pings a n (command_rounds tp n))
    \<and> map_of (maxControlMsgSent s') = (map_of (maxControlMsgSent s))(a \<mapsto> n + int (command_rounds tp n))
    \<and> track acts (if has then after else before) = Some after"
  using assms(2-)
proof (induction goings arbitrary: s n has)
  case Nil
  then show ?case by (simp add: command_rounds_def)
next
  case (Cons g goings)
  let ?s = "s\<lparr>maxControlMsgSent := sm_put a (n + 1) (maxControlMsgSent s)\<rparr>"
  let ?m = "sendControlMsg PING_COMMAND a (n + 1)"
  from Cons.prems(3) have going: g and goings: "list_all (\<lambda>b. b) goings" by auto
  obtain cs where cs: "send has ?m = Inr cs" using total by blast
  have round: "commandLoop_round tp a s = (?s, ?m, n + 1 \<ge> numMsgs tp)"
    using Cons.prems(1,2) by (simp add: commandLoop_round_def sm_index_def Let_def)
  have it: "command_iter tp a send g (s, has) = Inr ((?s, True), cs @ [Usleep (msgSleep tp)], n + 1 \<ge> numMsgs tp)"
    using going cs by (simp add: command_iter_def round)
  have wf: "sm_wf (maxControlMsgSent ?s)" and "map_of (maxControlMsgSent ?s) a = Some (n + 1)"
    and upd: "map_of (maxControlMsgSent ?s) = (map_of (maxControlMsgSent s))(a \<mapsto> n + 1)"
    using Cons.prems(1) by (auto simp: sm_laws fun_eq_iff)
  note sends_cs = sends [OF cs] and track_cs = send_round [OF cs]
  show ?case
  proof (cases "n + 1 \<ge> numMsgs tp")
    case True
    then have "command_rounds tp n = 1" by (simp add: command_rounds_def)
    with it True sends_cs track_cs upd show ?thesis
      by (simp add: pings_def track_append fun_eq_iff)
  next
    case False
    then have rounds: "command_rounds tp n = Suc (command_rounds tp (n + 1))"
      by (simp add: command_rounds_def)
    with Cons.prems(4) have "length goings \<ge> command_rounds tp (n + 1)" by simp
    from Cons.IH [OF wf \<open>map_of (maxControlMsgSent ?s) a = Some (n + 1)\<close> goings this, of True, unfolded if_True]
    obtain s' acts where run: "run_loop (command_iter tp a send) goings (?s, True) = Inr ((s', True), acts, True)"
      "sends_on sock acts = map (\<lambda>m. Send sock m nowait) (pings a (n + 1) (command_rounds tp (n + 1)))"
      "map_of (maxControlMsgSent s') =
         (map_of (maxControlMsgSent ?s))(a \<mapsto> n + 1 + int (command_rounds tp (n + 1)))"
      "track acts after = Some after" by blast
    then show ?thesis
      using it False sends_cs track_cs upd
      by (simp add: rounds pings_Suc track_append algebra_simps fun_eq_iff)
  qed
qed

end

lemmas sender_defs = createSocket_def checkVoid_def checkInt_def send_all_def

interpretation pairs: control_sender "pairs_sendCommand ret tp t" "Tls t" "dontWaitFlag tp" "[]" "[Tls t]"
  by unfold_locales
    (auto simp: pairs_sendCommand_def sender_defs bind_res_Inr_iff checked_iffs split: if_splits)

interpretation pubsub: control_sender "pubsub_sendCommand ret tp t" "Tls t" False "[]" "[Tls t]"
  by unfold_locales
    (auto simp: pubsub_sendCommand_def sender_defs bind_res_Inr_iff checked_iffs split: if_splits)

interpretation pushpull: control_sender "pushpull_sendCommand ret tp t" "Tls t" False "[]" "[Tls t]"
  by unfold_locales
    (auto simp: pushpull_sendCommand_def sender_defs bind_res_Inr_iff checked_iffs split: if_splits)

interpretation clientserver: control_sender "clientserver_sendCommand ret tp t" th_controlPub False
  "[th_controlPub]" "[th_controlPub]"
  by unfold_locales (auto simp: clientserver_sendCommand_def sender_defs checked_iffs)

lemma senders_total:
  assumes "all_succeed msg_bytes ret"
  shows "\<exists>cs. pairs_sendCommand ret tp t has m = Inr cs" "\<exists>cs. pubsub_sendCommand ret tp t has m = Inr cs"
    "\<exists>cs. pushpull_sendCommand ret tp t has m = Inr cs" "\<exists>cs. clientserver_sendCommand ret tp t has m = Inr cs"
  using all_succeedD [OF assms]
  by (simp_all add: pairs_sendCommand_def pubsub_sendCommand_def pushpull_sendCommand_def
      clientserver_sendCommand_def sender_defs if_then_def assert_nonnull_def assert_nonneg_def assert_that_def
      less_imp_neq [symmetric])

subsection \<open>The main loops\<close>

interpretation main_calls: traced_loop main_iter "\<lambda>_. True"
  "\<lambda>(h :: control_msg zcall list) (_ :: shared). list_all (\<lambda>c. neutral c \<and> set (uses c) \<subseteq> {th_controlSub, th_dataSub}) h"
proof unfold_locales
  fix h acts :: "control_msg zcall list" and s s' :: shared and i stop
  assume "list_all (\<lambda>c. neutral c \<and> set (uses c) \<subseteq> {th_controlSub, th_dataSub}) h"
    "main_iter i s = Inr (s', acts, stop)"
  then show "list_all (\<lambda>c. neutral c \<and> set (uses c) \<subseteq> {th_controlSub, th_dataSub}) (h @ acts)"
    by (auto simp: main_iter_def Let_def split: if_splits)
qed

lemma main_run_track:
  assumes "run_loop main_iter inputs s = Inr (s', acts, stop)" "{th_controlSub, th_dataSub} \<subseteq> set hs"
  shows "track acts hs = Some hs"
proof -
  have "list_all (\<lambda>c. neutral c \<and> set (uses c) \<subseteq> {th_controlSub, th_dataSub}) acts"
    using main_calls.good_run [OF _ _ assms(1), of "[]"] by (simp add: list_all_iff)
  with assms(2) show ?thesis by (intro track_neutral) (auto simp: list_all_iff)
qed

lemma mainLoop_parts:
  assumes "mainLoop ret tp control inputs s = Inr (s', trace, True)"
  obtains opened acts closed where "mainLoop_open ret tp control = Inr opened"
    "run_loop main_iter inputs s = Inr (s', acts, True)" "trace = opened @ acts @ closed"
    "stmts ((case control of None \<Rightarrow> [] | Some (h, k, b) \<Rightarrow> [closeSocket ret h]) @ [closeSocket ret th_dataSub]) = Inr closed"
  using assms that by (auto simp: mainLoop_def bind_res_Inr_iff split: if_splits)

lemma mainLoop_track_own:
  assumes "mainLoop ret tp (Some (th_controlSub, k, b)) inputs s = Inr (s', trace, True)"
  shows "track trace [] = Some []"
proof -
  from assms obtain opened acts closed where p: "mainLoop_open ret tp (Some (th_controlSub, k, b)) = Inr opened"
    "run_loop main_iter inputs s = Inr (s', acts, True)" "trace = opened @ acts @ closed"
    "stmts [closeSocket ret th_controlSub, closeSocket ret th_dataSub] = Inr closed"
    by (rule mainLoop_parts) simp
  have "track opened [] = Some [th_dataSub, th_controlSub]"
    using p(1) by (auto simp: mainLoop_open_def sender_defs bind_res_Inr_iff checked_iffs split: if_splits)
  moreover have "track acts [th_dataSub, th_controlSub] = Some [th_dataSub, th_controlSub]"
    by (rule main_run_track [OF p(2)]) simp
  moreover have "track closed [th_dataSub, th_controlSub] = Some []"
    using p(4) by (auto simp: closeSocket_def sender_defs bind_res_Inr_iff checked_iffs)
  ultimately show ?thesis by (simp add: p(3) track_append)
qed

end
