(* ===== verification/Threads_System.thy ===== *)
theory Threads_System
  imports Threads_Senders
begin

section \<open>The threads of a test, running together\<close>

text \<open>
  The command threads, the channels from them to the main loop, and the main loop, as a
  step relation: every interleaving of their rounds is a run. A channel keeps the order of
  what it carries, as libzmq's connections do, but may lose messages (with PUB and SUB
  sockets it does). The exit message comes from a thread of its own, over its own channel,
  once all command threads have ended. \<open>lost\<close> counts, for each thread, the messages its
  channel lost; no step of the program depends on it.
\<close>

record system =
  sh :: shared
  ended :: "nat \<Rightarrow> bool"
  chan :: "nat \<Rightarrow> control_msg list"
  lost :: "nat \<Rightarrow> nat"
  exit_sent :: bool
  exit_chan :: "control_msg list"

definition system_init :: "nat \<Rightarrow> system" where
  "system_init n = \<lparr>sh = init_counters n shared_init, ended = (\<lambda>_. False), chan = (\<lambda>_. []),
     lost = (\<lambda>_. 0), exit_sent = False, exit_chan = []\<rparr>"

definition receive :: "control_msg \<Rightarrow> main_input" where
  "receive m = \<lparr>poll_rc = 1, control_ready = True, data_ready = False, control_in = Some m\<rparr>"

inductive sys_step :: "thread_params \<Rightarrow> nat \<Rightarrow> system \<Rightarrow> system \<Rightarrow> bool" for tp n where
  command: "i < n \<Longrightarrow> \<not> ended c i \<Longrightarrow> keepGoing (sh c) \<Longrightarrow>
     commandLoop_round tp (Command_Thread i) (sh c) = (s', m, done) \<Longrightarrow>
     sys_step tp n c (c\<lparr>sh := s', chan := (chan c)(i := chan c i @ [m]), ended := (ended c)(i := done)\<rparr>)"
| quit: "i < n \<Longrightarrow> \<not> ended c i \<Longrightarrow> \<not> keepGoing (sh c) \<Longrightarrow>
     sys_step tp n c (c\<lparr>ended := (ended c)(i := True)\<rparr>)"
| lose: "i < n \<Longrightarrow> chan c i = xs @ m # ys \<Longrightarrow>
     sys_step tp n c (c\<lparr>chan := (chan c)(i := xs @ ys), lost := (lost c)(i := Suc (lost c i))\<rparr>)"
| deliver: "i < n \<Longrightarrow> chan c i = m # ms \<Longrightarrow> main_iter (receive m) (sh c) = Inr (s', acts, False) \<Longrightarrow>
     sys_step tp n c (c\<lparr>sh := s', chan := (chan c)(i := ms)\<rparr>)"
| shutdown: "\<forall>i<n. ended c i \<Longrightarrow> \<not> exit_sent c \<Longrightarrow>
     sys_step tp n c (c\<lparr>exit_sent := True, exit_chan := [sendControlMsg EXIT_COMMAND Null 0]\<rparr>)"
| lose_exit: "exit_chan c = [m] \<Longrightarrow> sys_step tp n c (c\<lparr>exit_chan := []\<rparr>)"
| deliver_exit: "exit_chan c = [m] \<Longrightarrow> main_iter (receive m) (sh c) = Inr (s', acts, False) \<Longrightarrow>
     sys_step tp n c (c\<lparr>sh := s', exit_chan := []\<rparr>)"

inductive reachable :: "thread_params \<Rightarrow> nat \<Rightarrow> system \<Rightarrow> bool" for tp n where
  init: "reachable tp n (system_init n)"
| step: "reachable tp n c \<Longrightarrow> sys_step tp n c c' \<Longrightarrow> reachable tp n c'"

section \<open>The invariant\<close>

lemma main_iter_receive:
  "main_iter (receive m) s = Inr (s', acts, False) \<longleftrightarrow>
     keepGoing s \<and> s' = processControlMsg m s
     \<and> acts = [Poll [Var ''controlSub'', Var ''dataSub''] (-1), Recv (Var ''controlSub'') False]"
  by (auto simp: main_iter_def receive_def Let_def)

text \<open>
  What holds for thread \<open>i\<close>, of which \<open>S\<close> messages are sent and \<open>R\<close> is the highest received:
  the channel carries pings of this thread; without a loss, just those between \<open>R\<close> and \<open>S\<close>;
  and as long as no failure was seen, every message sent was received, is on its way or lost.
\<close>

definition ping :: "nat \<Rightarrow> int \<Rightarrow> control_msg" where
  "ping i k = sendControlMsg PING_COMMAND (Command_Thread i) k"

definition target :: "thread_params \<Rightarrow> int" where
  "target tp = max 1 (numMsgs tp)"

definition thread_inv :: "thread_params \<Rightarrow> system \<Rightarrow> nat \<Rightarrow> bool" where
  "thread_inv tp c i \<longleftrightarrow>
     (\<exists>S R. map_of (maxControlMsgSent (sh c)) (Command_Thread i) = Some S
        \<and> map_of (maxControlMsgReceived (sh c)) (Command_Thread i) = Some R
        \<and> (\<exists>ks. chan c i = map (ping i) ks \<and> (lost c i = 0 \<longrightarrow> ks = [R + 1..S]))
        \<and> (\<not> failed (sh c) \<longrightarrow> S = R + int (length (chan c i)) + int (lost c i))
        \<and> (if ended c i then S = target tp else 0 \<le> S \<and> S < target tp)
        \<and> (lost c i = 0 \<longrightarrow> R \<le> S))"

definition sys_inv :: "thread_params \<Rightarrow> nat \<Rightarrow> system \<Rightarrow> bool" where
  "sys_inv tp n c \<longleftrightarrow>
     sm_wf (maxControlMsgSent (sh c)) \<and> sm_wf (maxControlMsgReceived (sh c))
     \<and> dom (map_of (maxControlMsgSent (sh c))) = Command_Thread ` {..<n}
     \<and> dom (map_of (maxControlMsgReceived (sh c))) = Command_Thread ` {..<n}
     \<and> (\<forall>i<n. thread_inv tp c i)
     \<and> (failed (sh c) \<longrightarrow> (\<exists>i<n. lost c i > 0))
     \<and> (\<not> keepGoing (sh c) \<longrightarrow> exit_sent c \<and> exit_chan c = [])
     \<and> (exit_sent c \<longrightarrow> (\<forall>i<n. ended c i))
     \<and> exit_chan c \<in> {[], [sendControlMsg EXIT_COMMAND Null 0]}
     \<and> (exit_chan c \<noteq> [] \<longrightarrow> exit_sent c)"

lemma init_counters_simps:
  "init_counters n s =
     s\<lparr>maxControlMsgSent := fold (\<lambda>k. sm_put k 0) (map Command_Thread [0..<n]) (maxControlMsgSent s),
       maxControlMsgReceived := fold (\<lambda>k. sm_put k 0) (map Command_Thread [0..<n]) (maxControlMsgReceived s)\<rparr>"
  by (induction n) (simp_all add: init_counters_def)

lemma inv_init: "sys_inv tp n (system_init n)"
proof -
  let ?m = "fold (\<lambda>k. sm_put k (0 :: int)) (map Command_Thread [0..<n]) []"
  have "sm_wf ?m" by (rule sm.wf_fold_put_const) (simp add: sm_laws)
  moreover have "map_of ?m k = (if k \<in> Command_Thread ` {..<n} then Some 0 else None)" for k
    by (subst sm.find_fold_put_const) (auto simp: sm_laws atLeast0LessThan)
  moreover from this have "dom (map_of ?m) = Command_Thread ` {..<n}" by (auto split: if_splits)
  ultimately show ?thesis
    by (simp add: sys_inv_def system_init_def shared_init_def init_counters_simps thread_inv_def target_def max_def)
qed

lemma thread_invE:
  assumes "thread_inv tp c i"
  obtains S R ks where
    "map_of (maxControlMsgSent (sh c)) (Command_Thread i) = Some S"
    "map_of (maxControlMsgReceived (sh c)) (Command_Thread i) = Some R"
    "chan c i = map (ping i) ks" "lost c i = 0 \<longrightarrow> ks = [R + 1..S]"
    "\<not> failed (sh c) \<longrightarrow> S = R + int (length (chan c i)) + int (lost c i)"
    "if ended c i then S = target tp else 0 \<le> S \<and> S < target tp"
    "lost c i = 0 \<longrightarrow> R \<le> S"
  using assms unfolding thread_inv_def by (elim exE conjE) (rule that; assumption)

lemma thread_invI:
  assumes "map_of (maxControlMsgSent (sh c)) (Command_Thread i) = Some S"
    "map_of (maxControlMsgReceived (sh c)) (Command_Thread i) = Some R"
    "chan c i = map (ping i) ks" "lost c i = 0 \<longrightarrow> ks = [R + 1..S]"
    "\<not> failed (sh c) \<longrightarrow> S = R + int (length (chan c i)) + int (lost c i)"
    "if ended c i then S = target tp else 0 \<le> S \<and> S < target tp"
    "lost c i = 0 \<longrightarrow> R \<le> S"
  shows "thread_inv tp c i"
  unfolding thread_inv_def
  by (rule exI [of _ S], rule exI [of _ R], intro conjI exI [of _ ks]) (rule assms)+

lemma thread_inv_frame:
  assumes "thread_inv tp c j"
    and "map_of (maxControlMsgSent (sh c')) (Command_Thread j) = map_of (maxControlMsgSent (sh c)) (Command_Thread j)"
    and "map_of (maxControlMsgReceived (sh c')) (Command_Thread j) = map_of (maxControlMsgReceived (sh c)) (Command_Thread j)"
    and "chan c' j = chan c j" "lost c' j = lost c j" "ended c' j = ended c j"
    and "failed (sh c) \<longrightarrow> failed (sh c')"
  shows "thread_inv tp c' j"
proof -
  from assms(1) obtain S R ks where
    "map_of (maxControlMsgSent (sh c)) (Command_Thread j) = Some S"
    "map_of (maxControlMsgReceived (sh c)) (Command_Thread j) = Some R"
    "chan c j = map (ping j) ks" "lost c j = 0 \<longrightarrow> ks = [R + 1..S]"
    "\<not> failed (sh c) \<longrightarrow> S = R + int (length (chan c j)) + int (lost c j)"
    "if ended c j then S = target tp else 0 \<le> S \<and> S < target tp"
    "lost c j = 0 \<longrightarrow> R \<le> S"
    by (rule thread_invE)
  with assms(2-) show ?thesis by (intro thread_invI [of c' j S R ks]) auto
qed

lemma process_ping:
  assumes "map_of (maxControlMsgReceived s) (Command_Thread i) = Some R"
  shows "processControlMsg (ping i k) s =
    s\<lparr>failed := failed s \<or> k \<noteq> R + 1,
      maxControlMsgReceived := (if k > R then sm_put (Command_Thread i) k (maxControlMsgReceived s)
                                else maxControlMsgReceived s)\<rparr>"
  using assms by (auto simp: processControlMsg_def ping_def sendControlMsg_def sm_index_def Let_def)

lemma process_exit: "processControlMsg (sendControlMsg EXIT_COMMAND Null 0) s = s\<lparr>keepGoing := False\<rparr>"
  by (simp add: processControlMsg_def sendControlMsg_def)

lemma round_of_thread:
  assumes "map_of (maxControlMsgSent s) a = Some S"
  shows "commandLoop_round tp a s =
    (s\<lparr>maxControlMsgSent := sm_put a (S + 1) (maxControlMsgSent s)\<rparr>,
     sendControlMsg PING_COMMAND a (S + 1), S + 1 \<ge> numMsgs tp)"
  using assms by (simp add: commandLoop_round_def sm_index_def Let_def)

lemma sys_invD:
  assumes "sys_inv tp n c"
  shows "sm_wf (maxControlMsgSent (sh c))" "sm_wf (maxControlMsgReceived (sh c))"
    "dom (map_of (maxControlMsgSent (sh c))) = Command_Thread ` {..<n}"
    "dom (map_of (maxControlMsgReceived (sh c))) = Command_Thread ` {..<n}"
    "i < n \<Longrightarrow> thread_inv tp c i" "failed (sh c) \<Longrightarrow> \<exists>i<n. lost c i > 0"
    "\<not> keepGoing (sh c) \<Longrightarrow> exit_sent c" "exit_sent c \<Longrightarrow> i < n \<Longrightarrow> ended c i"
  using assms by (auto simp: sys_inv_def)

text \<open>
  A step that changes thread \<open>i\<close> keeps the invariant of the whole when it keeps the threads'
  own and the domains.
\<close>

lemma sys_inv_thread:
  assumes "sys_inv tp n c" "i < n"
    and "sm_wf (maxControlMsgSent (sh c'))" "sm_wf (maxControlMsgReceived (sh c'))"
    and "\<And>k. k \<noteq> Command_Thread i \<Longrightarrow>
      map_of (maxControlMsgSent (sh c')) k = map_of (maxControlMsgSent (sh c)) k
      \<and> map_of (maxControlMsgReceived (sh c')) k = map_of (maxControlMsgReceived (sh c)) k"
    and "\<And>j. j \<noteq> i \<Longrightarrow> chan c' j = chan c j \<and> lost c' j = lost c j \<and> ended c' j = ended c j"
    and "thread_inv tp c' i" "ended c i \<longrightarrow> ended c' i" "lost c i \<le> lost c' i"
    and "failed (sh c) \<longrightarrow> failed (sh c')"
    and "failed (sh c') \<and> \<not> failed (sh c) \<longrightarrow> lost c' i > 0"
    and "keepGoing (sh c') = keepGoing (sh c)" "exit_sent c' = exit_sent c" "exit_chan c' = exit_chan c"
  shows "sys_inv tp n c'"
proof -
  have "thread_inv tp c' j" if "j < n" for j
  proof (cases "j = i")
    case True
    with assms(7) show ?thesis by simp
  next
    case False
    with assms(5,6,10) sys_invD(5) [OF assms(1) that] show ?thesis
      by (intro thread_inv_frame [of tp c j c']) auto
  qed
  moreover have "dom (map_of (maxControlMsgSent (sh c'))) = Command_Thread ` {..<n}"
    "dom (map_of (maxControlMsgReceived (sh c'))) = Command_Thread ` {..<n}"
  proof -
    have own: "Command_Thread i \<in> dom (map_of (maxControlMsgSent (sh c')))"
      "Command_Thread i \<in> dom (map_of (maxControlMsgReceived (sh c')))"
      using assms(7) by (auto simp: thread_inv_def)
    have "k \<in> dom (map_of (maxControlMsgSent (sh c'))) \<longleftrightarrow> k \<in> Command_Thread ` {..<n}" for k
      using own(1) assms(2,5) sys_invD(3) [OF assms(1)] by (cases "k = Command_Thread i") (auto simp: domIff)
    moreover have "k \<in> dom (map_of (maxControlMsgReceived (sh c'))) \<longleftrightarrow> k \<in> Command_Thread ` {..<n}" for k
      using own(2) assms(2,5) sys_invD(4) [OF assms(1)] by (cases "k = Command_Thread i") (auto simp: domIff)
    ultimately show "dom (map_of (maxControlMsgSent (sh c'))) = Command_Thread ` {..<n}"
      "dom (map_of (maxControlMsgReceived (sh c'))) = Command_Thread ` {..<n}" by blast+
  qed
  moreover have "\<exists>j<n. lost c' j > 0" if f: "failed (sh c')"
  proof (cases "failed (sh c)")
    case True
    then obtain j where "j < n" "lost c j > 0" using sys_invD(6) [OF assms(1)] by blast
    then show ?thesis using assms(6) [of j] assms(9) by (cases "j = i") auto
  next
    case False
    with f assms(2,11) show ?thesis by blast
  qed
  moreover have "ended c' j" if "exit_sent c'" "j < n" for j
    using that sys_invD(8) [OF assms(1), of j] assms(6) [of j] assms(8,13) by (cases "j = i") auto
  ultimately show ?thesis
    using assms(1,3,4,12,13,14) by (auto simp: sys_inv_def)
qed

lemma inv_command:
  assumes inv: "sys_inv tp n c" and i: "i < n" "\<not> ended c i"
    and round: "commandLoop_round tp (Command_Thread i) (sh c) = (s', m, done)"
  shows "sys_inv tp n (c\<lparr>sh := s', chan := (chan c)(i := chan c i @ [m]), ended := (ended c)(i := done)\<rparr>)"
    (is "sys_inv tp n ?c")
proof -
  from sys_invD(5) [OF inv i(1)] obtain S R ks where
    S: "map_of (maxControlMsgSent (sh c)) (Command_Thread i) = Some S"
    and R: "map_of (maxControlMsgReceived (sh c)) (Command_Thread i) = Some R"
    and ks: "chan c i = map (ping i) ks" "lost c i = 0 \<longrightarrow> ks = [R + 1..S]"
    and bal: "\<not> failed (sh c) \<longrightarrow> S = R + int (length (chan c i)) + int (lost c i)"
    and reach: "if ended c i then S = target tp else 0 \<le> S \<and> S < target tp"
    and le: "lost c i = 0 \<longrightarrow> R \<le> S"
    by (rule thread_invE)
  from reach i(2) have lt: "0 \<le> S" "S < target tp" by auto
  from round round_of_thread [OF S] have
    s': "s' = (sh c)\<lparr>maxControlMsgSent := sm_put (Command_Thread i) (S + 1) (maxControlMsgSent (sh c))\<rparr>"
    and m: "m = ping i (S + 1)" and fin: "done \<longleftrightarrow> S + 1 \<ge> numMsgs tp"
    by (auto simp: ping_def)
  have wf: "sm_wf (maxControlMsgSent (sh c))" "sm_wf (maxControlMsgReceived (sh c))" using sys_invD [OF inv] by auto
  have "[R + 1..S + 1] = [R + 1..S] @ [S + 1]" if "R \<le> S" using that by (simp add: upto_rec2)
  then have "lost c i = 0 \<longrightarrow> ks @ [S + 1] = [R + 1..S + 1]" using ks(2) le by auto
  moreover have "chan c i @ [m] = map (ping i) (ks @ [S + 1])" using ks(1) m by simp
  moreover have "if done then S + 1 = target tp else 0 \<le> S + 1 \<and> S + 1 < target tp"
    using lt fin by (auto simp: target_def max_def split: if_splits)
  ultimately have "thread_inv tp ?c i"
    using R bal le wf(1)
    by (intro thread_invI [of ?c i "S + 1" R "ks @ [S + 1]"]) (auto simp: s' sm_laws)
  then show ?thesis
    using i wf by (intro sys_inv_thread [OF inv i(1)]) (simp_all add: s' sm_laws)
qed

lemma inv_lose:
  assumes inv: "sys_inv tp n c" and i: "i < n" and ch: "chan c i = xs @ m # ys"
  shows "sys_inv tp n (c\<lparr>chan := (chan c)(i := xs @ ys), lost := (lost c)(i := Suc (lost c i))\<rparr>)"
    (is "sys_inv tp n ?c")
proof -
  from sys_invD(5) [OF inv i] obtain S R ks where
    S: "map_of (maxControlMsgSent (sh c)) (Command_Thread i) = Some S"
    and R: "map_of (maxControlMsgReceived (sh c)) (Command_Thread i) = Some R"
    and ks: "chan c i = map (ping i) ks" "lost c i = 0 \<longrightarrow> ks = [R + 1..S]"
    and bal: "\<not> failed (sh c) \<longrightarrow> S = R + int (length (chan c i)) + int (lost c i)"
    and reach: "if ended c i then S = target tp else 0 \<le> S \<and> S < target tp"
    and le: "lost c i = 0 \<longrightarrow> R \<le> S"
    by (rule thread_invE)
  define ks' where "ks' = take (length xs) ks @ drop (Suc (length xs)) ks"
  have "map (ping i) ks' = take (length xs) (chan c i) @ drop (Suc (length xs)) (chan c i)"
    by (simp add: ks'_def ks(1) take_map drop_map)
  then have ks': "xs @ ys = map (ping i) ks'" by (simp add: ch)
  from arg_cong [OF this, of length] have len: "length ks' = length xs + length ys" by simp
  have "thread_inv tp ?c i"
    using S R reach bal ch ks' len
    by (intro thread_invI [of ?c i S R ks']) (simp_all split del: if_split)
  then show ?thesis
    using sys_invD(1,2) [OF inv] by (intro sys_inv_thread [OF inv i]) simp_all
qed

lemma inv_deliver:
  assumes inv: "sys_inv tp n c" and i: "i < n" and ch: "chan c i = m # ms"
  shows "sys_inv tp n (c\<lparr>sh := processControlMsg m (sh c), chan := (chan c)(i := ms)\<rparr>)"
    (is "sys_inv tp n ?c")
proof -
  from sys_invD(5) [OF inv i] obtain S R ks where
    S: "map_of (maxControlMsgSent (sh c)) (Command_Thread i) = Some S"
    and R: "map_of (maxControlMsgReceived (sh c)) (Command_Thread i) = Some R"
    and ks: "chan c i = map (ping i) ks" "lost c i = 0 \<longrightarrow> ks = [R + 1..S]"
    and bal: "\<not> failed (sh c) \<longrightarrow> S = R + int (length (chan c i)) + int (lost c i)"
    and reach: "if ended c i then S = target tp else 0 \<le> S \<and> S < target tp"
    and le: "lost c i = 0 \<longrightarrow> R \<le> S"
    by (rule thread_invE)
  from ch ks(1) obtain k ks' where k: "ks = k # ks'" "m = ping i k" "ms = map (ping i) ks'"
    by (cases ks) auto
  have head: "k = R + 1 \<and> ks' = [R + 1 + 1..S] \<and> R + 1 \<le> S" if "lost c i = 0"
    using ks(2) k(1) that upto_rec1 [of "R + 1" S] by (cases "R + 1 \<le> S") auto
  have wf: "sm_wf (maxControlMsgSent (sh c))" "sm_wf (maxControlMsgReceived (sh c))" using sys_invD [OF inv] by auto
  define s' where "s' = processControlMsg m (sh c)"
  have s': "s' = (sh c)\<lparr>failed := failed (sh c) \<or> k \<noteq> R + 1, maxControlMsgReceived :=
      (if k > R then sm_put (Command_Thread i) k (maxControlMsgReceived (sh c)) else maxControlMsgReceived (sh c))\<rparr>"
    unfolding s'_def k(2) by (rule process_ping [OF R])
  have R': "map_of (maxControlMsgReceived s') (Command_Thread i) = Some (max R k)"
    using R wf by (auto simp: s' sm_laws max_def)
  have "thread_inv tp (c\<lparr>sh := s', chan := (chan c)(i := ms)\<rparr>) i"
  proof (rule thread_invI [of _ i S "max R k" ks'])
    show "lost (c\<lparr>sh := s', chan := (chan c)(i := ms)\<rparr>) i = 0 \<longrightarrow> ks' = [max R k + 1..S]"
      using head by auto
    show "lost (c\<lparr>sh := s', chan := (chan c)(i := ms)\<rparr>) i = 0 \<longrightarrow> max R k \<le> S"
      using head by auto
    show "\<not> failed (sh (c\<lparr>sh := s', chan := (chan c)(i := ms)\<rparr>)) \<longrightarrow> S = max R k
        + int (length (chan (c\<lparr>sh := s', chan := (chan c)(i := ms)\<rparr>) i))
        + int (lost (c\<lparr>sh := s', chan := (chan c)(i := ms)\<rparr>) i)"
      using bal ch by (simp add: s')
  qed (use S R' reach k(3) in \<open>simp_all add: s' split del: if_split\<close>)
  moreover have "failed s' \<and> \<not> failed (sh c) \<longrightarrow> lost c i > 0" using head by (auto simp: s')
  ultimately show ?thesis
    using wf unfolding s'_def [symmetric]
    by (intro sys_inv_thread [OF inv i]) (simp_all add: s' sm_laws)
qed

lemma inv_keeps_threads:
  assumes "sys_inv tp n c" "sh c' = sh c" "chan c' = chan c" "lost c' = lost c"
    and "\<forall>i<n. ended c' i = ended c i"
    and "\<not> keepGoing (sh c') \<longrightarrow> exit_sent c' \<and> exit_chan c' = []"
    and "exit_sent c' \<longrightarrow> (\<forall>i<n. ended c' i)"
    and "exit_chan c' \<in> {[], [sendControlMsg EXIT_COMMAND Null 0]}"
    and "exit_chan c' \<noteq> [] \<longrightarrow> exit_sent c'"
  shows "sys_inv tp n c'"
proof -
  have "thread_inv tp c' i" if "i < n" for i
    using assms(2-5) that sys_invD(5) [OF assms(1) that] by (intro thread_inv_frame [of tp c i c']) auto
  with assms show ?thesis unfolding sys_inv_def by simp
qed

lemma inv_step:
  assumes "sys_step tp n c c'" "sys_inv tp n c"
  shows "sys_inv tp n c'"
  using assms
proof cases
  case (command i s' m d)
  then show ?thesis using inv_command [OF assms(2)] by blast
next
  case (quit i)
  with sys_invD(7,8) [OF assms(2)] have False by blast
  then show ?thesis ..
next
  case (lose i xs m ys)
  then show ?thesis using inv_lose [OF assms(2)] by blast
next
  case (deliver i m ms s' acts)
  then show ?thesis using inv_deliver [OF assms(2) deliver(2,3)] by (simp add: main_iter_receive)
next
  case shutdown
  then show ?thesis
    using sys_invD(7) [OF assms(2)] by (intro inv_keeps_threads [OF assms(2)]) auto
next
  case (lose_exit m)
  then show ?thesis
    using assms(2) by (intro inv_keeps_threads [OF assms(2)]) (auto simp: sys_inv_def)
next
  case (deliver_exit m s' acts)
  then have m: "m = sendControlMsg EXIT_COMMAND Null 0" and sent: "exit_sent c"
    using assms(2) by (auto simp: sys_inv_def)
  with deliver_exit have s': "s' = (sh c)\<lparr>keepGoing := False\<rparr>"
    by (simp add: main_iter_receive process_exit)
  have "thread_inv tp c' i" if "i < n" for i
    using deliver_exit(1) s' sys_invD(5) [OF assms(2) that] by (intro thread_inv_frame [of tp c i c']) auto
  with deliver_exit(1) s' sent assms(2) show ?thesis unfolding sys_inv_def by simp
qed

lemma reachable_inv: "reachable tp n c \<Longrightarrow> sys_inv tp n c"
  by (induction rule: reachable.induct) (auto intro: inv_init inv_step)

section \<open>The verdict\<close>

lemma failed_checkResults:
  "failed (checkResults tp s) \<longleftrightarrow> failed s
     \<or> (\<exists>(t, k) \<in> set (maxControlMsgSent s). k \<noteq> numMsgs tp) \<or> (\<exists>(t, k) \<in> set (maxControlMsgReceived s). k \<noteq> numMsgs tp)"
proof -
  have "failed (checkResults tp s) \<longleftrightarrow> failed s
      \<or> list_ex (\<lambda>(t, k). k \<noteq> numMsgs tp) (maxControlMsgSent s)
      \<or> list_ex (\<lambda>(t, k). k \<noteq> numMsgs tp) (maxControlMsgReceived s)"
    by (simp add: checkResults_def Let_def)
  then show ?thesis by (simp only: list_ex_iff)
qed

lemma failed_printResults: "failed (snd (printResults tp s)) = failed s"
proof -
  have "failed (snd (fold (\<lambda>(t, n) (lines, s).
         case sm_index 0 (maxControlMsgReceived s) t of
           (r, received) \<Rightarrow>
             (if \<not> quietFlag tp \<or> r \<noteq> n then (lines @ [(t, n, r)], s\<lparr>maxControlMsgReceived := received\<rparr>)
              else (lines, s\<lparr>maxControlMsgReceived := received\<rparr>))) es (ls, s))) = failed s" for es ls
    by (induction es arbitrary: ls s) (auto split: prod.splits)
  then show ?thesis by (simp add: printResults_def)
qed

lemma exit_code_zero:
  "exit_code tp s = 0 \<longleftrightarrow> \<not> failed s
     \<and> (\<forall>(t, k) \<in> set (maxControlMsgSent s). k = numMsgs tp) \<and> (\<forall>(t, k) \<in> set (maxControlMsgReceived s). k = numMsgs tp)"
  by (auto simp: exit_code_def failed_printResults failed_checkResults)

text \<open>What the exit code says of a system whose command threads have ended.\<close>

lemma inv_verdict:
  assumes inv: "sys_inv tp n c" and ended: "\<forall>i<n. ended c i"
  shows "exit_code tp (sh c) = 0 \<longleftrightarrow>
    (\<forall>i<n. numMsgs tp \<ge> 1 \<and> lost c i = 0 \<and> chan c i = [])"
proof -
  have wf: "sm_wf (maxControlMsgSent (sh c))" "sm_wf (maxControlMsgReceived (sh c))"
    and dom: "dom (map_of (maxControlMsgSent (sh c))) = Command_Thread ` {..<n}"
      "dom (map_of (maxControlMsgReceived (sh c))) = Command_Thread ` {..<n}"
    using sys_invD [OF inv] by auto
  have all: "(\<forall>(t, k) \<in> set m. k = x) \<longleftrightarrow> (\<forall>i<n. map_of m (Command_Thread i) = Some x)"
    if "sm_wf m" "dom (map_of m) = Command_Thread ` {..<n}" for m and x :: int
  proof
    assume l: "\<forall>(t, k) \<in> set m. k = x"
    show "\<forall>i<n. map_of m (Command_Thread i) = Some x"
    proof (intro allI impI)
      fix i assume "i < n"
      then have "Command_Thread i \<in> dom (map_of m)" by (simp add: that(2))
      then obtain y where y: "map_of m (Command_Thread i) = Some y" by blast
      from l map_of_SomeD [OF y] have "y = x" by auto
      with y show "map_of m (Command_Thread i) = Some x" by simp
    qed
  next
    assume r: "\<forall>i<n. map_of m (Command_Thread i) = Some x"
    show "\<forall>(t, k) \<in> set m. k = x"
    proof (intro ballI, clarify)
      fix t k assume "(t, k) \<in> set m"
      with that(1) have k: "map_of m t = Some k" by (simp add: sm_wf_entry)
      then have "t \<in> Command_Thread ` {..<n}" unfolding that(2) [symmetric] by (rule domI)
      then obtain i where "i < n" "t = Command_Thread i" by auto
      with k r show "k = x" by simp
    qed
  qed
  have verdict: "exit_code tp (sh c) = 0 \<longleftrightarrow> \<not> failed (sh c)
      \<and> (\<forall>i<n. map_of (maxControlMsgSent (sh c)) (Command_Thread i) = Some (numMsgs tp))
      \<and> (\<forall>i<n. map_of (maxControlMsgReceived (sh c)) (Command_Thread i) = Some (numMsgs tp))"
    by (simp only: exit_code_zero all [OF wf(1) dom(1)] all [OF wf(2) dom(2)])
  show ?thesis
  proof
    assume "exit_code tp (sh c) = 0"
    with verdict have ok: "\<not> failed (sh c)"
      "\<forall>i<n. map_of (maxControlMsgSent (sh c)) (Command_Thread i) = Some (numMsgs tp)"
      "\<forall>i<n. map_of (maxControlMsgReceived (sh c)) (Command_Thread i) = Some (numMsgs tp)" by auto
    show "\<forall>i<n. numMsgs tp \<ge> 1 \<and> lost c i = 0 \<and> chan c i = []"
    proof (intro allI impI)
      fix i assume i: "i < n"
      from sys_invD(5) [OF inv i] ok i ended have eqs: "numMsgs tp = target tp"
        "numMsgs tp = numMsgs tp + int (length (chan c i)) + int (lost c i)"
        by (auto elim!: thread_invE)
      from eqs(2) have "length (chan c i) = 0" "lost c i = 0" by linarith+
      with eqs(1) show "numMsgs tp \<ge> 1 \<and> lost c i = 0 \<and> chan c i = []" by (simp add: target_def)
    qed
  next
    assume r: "\<forall>i<n. numMsgs tp \<ge> 1 \<and> lost c i = 0 \<and> chan c i = []"
    then have nf: "\<not> failed (sh c)" using sys_invD(6) [OF inv] by auto
    have "map_of (maxControlMsgSent (sh c)) (Command_Thread i) = Some (numMsgs tp)
        \<and> map_of (maxControlMsgReceived (sh c)) (Command_Thread i) = Some (numMsgs tp)" if i: "i < n" for i
    proof -
      from sys_invD(5) [OF inv i] obtain S R where S: "map_of (maxControlMsgSent (sh c)) (Command_Thread i) = Some S"
        and R: "map_of (maxControlMsgReceived (sh c)) (Command_Thread i) = Some R"
        and bal: "\<not> failed (sh c) \<longrightarrow> S = R + int (length (chan c i)) + int (lost c i)"
        and reach: "if ended c i then S = target tp else 0 \<le> S \<and> S < target tp"
        by (rule thread_invE)
      from r i nf bal ended reach have "S = R" "S = numMsgs tp" by (auto simp: target_def)
      with S R show ?thesis by simp
    qed
    with nf verdict show "exit_code tp (sh c) = 0" by blast
  qed
qed

section \<open>Runs come to an end\<close>







section \<open>The properties\<close>

text \<open>
  C6. The verdict. Once the main loop has ended, in whatever way the threads were
  interleaved, the exit code is 0 exactly if every thread was to send one message at least,
  no message of any thread was lost, and none is still under way: the test neither misses
  a lost message nor reports one that was not.
\<close>

theorem threads_verdict:
  assumes "reachable tp n c" "\<not> keepGoing (sh c)"
  shows "exit_code tp (sh c) = 0 \<longleftrightarrow> (\<forall>i<n. numMsgs tp \<ge> 1 \<and> lost c i = 0 \<and> chan c i = [])"
proof -
  from assms(1) have inv: "sys_inv tp n c" by (rule reachable_inv)
  with assms(2) have "\<forall>i<n. ended c i" using sys_invD(7,8) [OF inv] by blast
  with inv show ?thesis by (rule inv_verdict)
qed

text \<open>A run of one thread that sends one message.\<close>

definition tp1 :: thread_params where
  "tp1 = thread_params_init\<lparr>numMsgs := 1\<rparr>"

definition shared_at :: "bool \<Rightarrow> int \<Rightarrow> int \<Rightarrow> shared" where
  "shared_at going sent received = \<lparr>keepGoing = going, failed = False,
     maxControlMsgSent = [(Command_Thread 0, sent)], maxControlMsgReceived = [(Command_Thread 0, received)]\<rparr>"

lemma demo_rounds:
  "sh (system_init 1) = shared_at True 0 0"
  "commandLoop_round tp1 (Command_Thread 0) (shared_at True 0 0) = (shared_at True 1 0, ping 0 1, True)"
  "processControlMsg (ping 0 1) (shared_at True 1 0) = shared_at True 1 1"
  "processControlMsg (sendControlMsg EXIT_COMMAND Null 0) (shared_at True 1 1) = shared_at False 1 1"
  by (simp_all add: system_init_def init_counters_def shared_init_def shared_at_def commandLoop_round_def
      sm_index_def tp1_def thread_params_init_def ping_def processControlMsg_def sendControlMsg_def Let_def)

lemma demo_run:
  "\<exists>c. reachable tp1 1 c \<and> sh c = shared_at False 1 1 \<and> lost c 0 = 0 \<and> chan c 0 = []"
proof -
  let ?c0 = "system_init 1"
  have c0: "\<not> ended ?c0 0" "keepGoing (sh ?c0)" "lost ?c0 0 = 0" "chan ?c0 0 = []" "\<not> exit_sent ?c0"
    unfolding demo_rounds(1) by (simp_all add: system_init_def shared_at_def)
  define c1 where "c1 = ?c0\<lparr>sh := shared_at True 1 0, chan := (chan ?c0)(0 := chan ?c0 0 @ [ping 0 1]),
    ended := (ended ?c0)(0 := True)\<rparr>"
  have r1: "reachable tp1 1 c1"
    unfolding c1_def
    by (rule reachable.step [OF reachable.init sys_step.command [OF _ c0(1,2)]])
      (use demo_rounds(1,2) in simp_all)
  have c1: "sh c1 = shared_at True 1 0" "chan c1 0 = [ping 0 1]" "lost c1 0 = 0" "ended c1 0" "\<not> exit_sent c1"
    using c0 by (simp_all add: c1_def)
  define c2 where "c2 = c1\<lparr>sh := shared_at True 1 1, chan := (chan c1)(0 := [])\<rparr>"
  have keep: "keepGoing (shared_at True a b)" for a b by (simp add: shared_at_def)
  have r2: "reachable tp1 1 c2"
    unfolding c2_def
    by (rule reachable.step [OF r1 sys_step.deliver [OF _ c1(2)]])
      (simp_all add: main_iter_receive demo_rounds c1 keep)
  have c2: "sh c2 = shared_at True 1 1" "chan c2 0 = []" "lost c2 0 = 0" "\<forall>i<1. ended c2 i" "\<not> exit_sent c2"
    using c1 by (simp_all add: c2_def)
  define c3 where "c3 = c2\<lparr>exit_sent := True, exit_chan := [sendControlMsg EXIT_COMMAND Null 0]\<rparr>"
  have r3: "reachable tp1 1 c3"
    unfolding c3_def by (rule reachable.step [OF r2 sys_step.shutdown [OF c2(4,5)]])
  have c3: "sh c3 = shared_at True 1 1" "exit_chan c3 = [sendControlMsg EXIT_COMMAND Null 0]"
    "lost c3 0 = 0" "chan c3 0 = []" using c2 by (simp_all add: c3_def)
  define c4 where "c4 = c3\<lparr>sh := shared_at False 1 1, exit_chan := []\<rparr>"
  have "reachable tp1 1 c4"
    unfolding c4_def
    by (rule reachable.step [OF r3 sys_step.deliver_exit [OF c3(2)]])
      (simp_all add: main_iter_receive demo_rounds c3 keep)
  with c3 show ?thesis by (intro exI [of _ c4]) (simp add: c4_def)
qed

theorem threads_verdict_witness:
  "\<exists>c. reachable tp1 1 c \<and> \<not> keepGoing (sh c) \<and> exit_code tp1 (sh c) = 0"
proof -
  obtain c where c: "reachable tp1 1 c" "sh c = shared_at False 1 1" "lost c 0 = 0" "chan c 0 = []"
    using demo_run by blast
  have "\<not> keepGoing (sh c)" by (simp add: c(2) shared_at_def)
  with threads_verdict [OF c(1) this] c show ?thesis
    by (intro exI [of _ c]) (simp add: tp1_def)
qed

text \<open>
  C7. Without a loss, at every moment of every run, no failure has been flagged and what is
  under way from a thread is exactly what it sent and the main loop has not yet received,
  in order: nothing is repeated, skipped or mixed between threads.
\<close>

theorem threads_in_order:
  assumes "reachable tp n c" "\<forall>i<n. lost c i = 0"
  shows "\<not> failed (sh c) \<and> (\<forall>i<n. \<exists>S R. map_of (maxControlMsgSent (sh c)) (Command_Thread i) = Some S
    \<and> map_of (maxControlMsgReceived (sh c)) (Command_Thread i) = Some R \<and> R \<le> S
    \<and> chan c i = map (ping i) [R + 1..S])"
proof -
  note inv = reachable_inv [OF assms(1)]
  have "\<exists>S R. map_of (maxControlMsgSent (sh c)) (Command_Thread i) = Some S
      \<and> map_of (maxControlMsgReceived (sh c)) (Command_Thread i) = Some R \<and> R \<le> S
      \<and> chan c i = map (ping i) [R + 1..S]" if "i < n" for i
  proof -
    have "lost c i = 0" using assms(2) that by blast
    from sys_invD(5) [OF inv that] obtain S R ks where
      "map_of (maxControlMsgSent (sh c)) (Command_Thread i) = Some S"
      "map_of (maxControlMsgReceived (sh c)) (Command_Thread i) = Some R"
      "chan c i = map (ping i) ks" "lost c i = 0 \<longrightarrow> ks = [R + 1..S]" "lost c i = 0 \<longrightarrow> R \<le> S"
      by (rule thread_invE)
    with \<open>lost c i = 0\<close> show ?thesis by (intro exI [of _ S] exI [of _ R]) simp
  qed
  moreover have "\<not> failed (sh c)" using sys_invD(6) [OF inv] assms(2) by auto
  ultimately show ?thesis by blast
qed

theorem threads_in_order_witness:
  "\<exists>c. reachable tp1 1 c \<and> sh c = shared_at False 1 1 \<and> \<not> failed (sh c)
     \<and> (\<exists>S R. chan c 0 = map (ping 0) [R + 1..S])"
proof -
  obtain c where c: "reachable tp1 1 c" "sh c = shared_at False 1 1" "lost c 0 = 0"
    using demo_run by blast
  then have "\<forall>i<1. lost c i = 0" by simp
  from threads_in_order [OF c(1) this] c(1,2) show ?thesis by (intro exI [of _ c]) auto
qed



end
