(* ===== verification/Threads_Properties.thy ===== *)
theory Threads_Properties
  imports Threads_System "HOL-Library.Multiset"
begin

section \<open>Properties of the programs of threads/\<close>

subsection \<open>The senders\<close>

text \<open>
  The calls a command thread makes from the start, with \<^verbatim>\<open>keepGoing\<close> holding at each of
  its tests, as it does until all command threads have ended.
\<close>

definition command_trace :: "thread_params \<Rightarrow> nat \<Rightarrow> sender \<Rightarrow> nat \<Rightarrow> shared \<Rightarrow> fault + (shared \<times> bool) \<times> control_msg zcall list \<times> bool" where
  "command_trace tp t send k s = run_loop (command_iter tp (Command_Thread t) send) (replicate k True) (s, False)"

definition sends_all_pings ::
  "thread_params \<Rightarrow> nat \<Rightarrow> handle \<Rightarrow> bool \<Rightarrow> handle list \<Rightarrow> handle list
     \<Rightarrow> fault + (shared \<times> bool) \<times> control_msg zcall list \<times> bool \<Rightarrow> bool" where
  "sends_all_pings tp t sock nowait before after r \<longleftrightarrow>
     (\<exists>s' acts. r = Inr ((s', True), acts, True)
        \<and> sends_on sock acts = map (\<lambda>m. Send sock m nowait) (pings (Command_Thread t) 0 (nat (target tp)))
        \<and> map_of (maxControlMsgSent s') (Command_Thread t) = Some (target tp)
        \<and> track acts before = Some after)"

lemma command_rounds_start: "command_rounds tp 0 = nat (target tp)"
  by (simp add: command_rounds_def target_def)

lemma target_nat: "int (nat (target tp)) = target tp"
  by (simp add: target_def)

lemma init_counters_wf: "sm_wf (maxControlMsgSent (init_counters n shared_init))"
  using inv_init [of undefined n] by (simp add: sys_inv_def system_init_def)

lemma init_counters_zero:
  "i < n \<Longrightarrow> map_of (maxControlMsgSent (init_counters n shared_init)) (Command_Thread i) = Some 0"
  by (simp add: init_counters_simps shared_init_def sm.find_fold_put_const sm_laws)

text \<open>
  C22. The command threads. In each of the four programs, when libzmq's calls succeed, a
  command thread ends after as many rounds as there are messages to send (one at least),
  and has sent PING 1 to PING n, in this order, each once, on one socket: its own, made once
  and given to the thread-local store, or the shared client socket.
\<close>

theorem command_threads_send_all:
  assumes "all_succeed msg_bytes ret" "t < n" "nat (target tp) \<le> k"
  shows "sends_all_pings tp t (Tls t) (dontWaitFlag tp) [] [Tls t]
      (command_trace tp t (pairs_sendCommand ret tp t) k (init_counters n shared_init))
    \<and> sends_all_pings tp t (Tls t) False [] [Tls t]
      (command_trace tp t (pubsub_sendCommand ret tp t) k (init_counters n shared_init))
    \<and> sends_all_pings tp t (Tls t) False [] [Tls t]
      (command_trace tp t (pushpull_sendCommand ret tp t) k (init_counters n shared_init))
    \<and> sends_all_pings tp t th_controlPub False [th_controlPub] [th_controlPub]
      (command_trace tp t (clientserver_sendCommand ret tp t) k (init_counters n shared_init))"
proof -
  let ?s = "init_counters n shared_init"
  have going: "list_all (\<lambda>b. b) (replicate k True)" by (simp add: list_all_iff)
  have len: "command_rounds tp 0 \<le> length (replicate k True)" using assms(3) by (simp add: command_rounds_start)
  note start = init_counters_wf [of n] init_counters_zero [OF assms(2)] going len
  note total = senders_total [OF assms(1)]
  show ?thesis
    using pairs.command_run [of ret tp t ?s "Command_Thread t" 0 "replicate k True" tp False, OF total(1) start]
      pubsub.command_run [of ret tp t ?s "Command_Thread t" 0 "replicate k True" tp False, OF total(2) start]
      pushpull.command_run [of ret tp t ?s "Command_Thread t" 0 "replicate k True" tp False, OF total(3) start]
      clientserver.command_run [of ret tp t ?s "Command_Thread t" 0 "replicate k True" tp False, OF total(4) start]
    unfolding sends_all_pings_def command_trace_def command_rounds_start target_nat
    by (auto simp: target_nat)
qed

theorem command_threads_send_all_witness:
  "sends_all_pings tp1 0 (Tls 0) False [] [Tls 0]
     (command_trace tp1 0 (pushpull_sendCommand (ret_success msg_bytes) tp1 0) 1 (init_counters 1 shared_init))"
  using command_threads_send_all [OF all_succeed_ret_success, of 0 1 tp1 1]
  by (simp add: target_def tp1_def)

subsection \<open>The main loops\<close>

lemma clientserver_loop_track:
  assumes "mainLoop ret tp None inputs s = Inr (s', trace, True)"
  shows "track trace [th_controlPub, th_controlSub] = Some [th_controlPub, th_controlSub]"
proof -
  let ?hs = "[th_controlPub, th_controlSub]"
  from assms obtain opened acts closed where p: "mainLoop_open ret tp None = Inr opened"
    "run_loop main_iter inputs s = Inr (s', acts, True)" "trace = opened @ acts @ closed"
    "stmts [closeSocket ret th_dataSub] = Inr closed"
    by (rule mainLoop_parts) simp
  have "track opened ?hs = Some (th_dataSub # ?hs)"
    using p(1) by (auto simp: mainLoop_open_def sender_defs bind_res_Inr_iff checked_iffs)
  moreover have "track acts (th_dataSub # ?hs) = Some (th_dataSub # ?hs)"
    by (rule main_run_track [OF p(2)]) simp
  moreover have "track closed (th_dataSub # ?hs) = Some ?hs"
    using p(4) by (auto simp: closeSocket_def sender_defs bind_res_Inr_iff checked_iffs)
  ultimately show ?thesis by (simp add: p(3) track_append)
qed

lemmas mainLoop_defs = pairs_mainLoop_def pubsub_mainLoop_def pushpull_mainLoop_def clientserver_mainLoop_def
  pairs_control_def pubsub_control_def pushpull_control_def clientserver_control_def

text \<open>
  The main loop closes what it opened. In the three programs whose main loop makes the
  control socket, a run of it that ends has used only open sockets and closed both; in
  clientserver.cpp it closes its data socket and leaves the shared ones open for \<^verbatim>\<open>main\<close>.
\<close>

theorem main_loops_close:
  "(pairs_mainLoop ret tp inputs s = Inr (s', trace, True) \<longrightarrow> track trace [] = Some [])
   \<and> (pubsub_mainLoop ret tp inputs s = Inr (s', trace, True) \<longrightarrow> track trace [] = Some [])
   \<and> (pushpull_mainLoop ret tp inputs s = Inr (s', trace, True) \<longrightarrow> track trace [] = Some [])
   \<and> (clientserver_mainLoop ret tp inputs s = Inr (s', trace, True) \<longrightarrow>
        track trace [th_controlPub, th_controlSub] = Some [th_controlPub, th_controlSub])"
  unfolding mainLoop_defs using mainLoop_track_own clientserver_loop_track by blast

theorem main_loops_close_witness:
  "\<exists>trace. pubsub_mainLoop (ret_success msg_bytes) tp1
      [receive (sendControlMsg EXIT_COMMAND Null 0), receive (ping 0 1)] shared_init
    = Inr (shared_init\<lparr>keepGoing := False\<rparr>, trace, True) \<and> track trace [] = Some []"
proof -
  have succ: "all_succeed msg_bytes (ret_success msg_bytes)" by (rule all_succeed_ret_success)
  have "\<exists>trace. pubsub_mainLoop (ret_success msg_bytes) tp1
      [receive (sendControlMsg EXIT_COMMAND Null 0), receive (ping 0 1)] shared_init
    = Inr (shared_init\<lparr>keepGoing := False\<rparr>, trace, True)"
    using all_succeedD [OF succ]
    by (simp add: mainLoop_defs mainLoop_def mainLoop_open_def sender_defs closeSocket_def if_then_def
        assert_nonnull_def assert_nonneg_def assert_that_def less_imp_neq [symmetric]
        main_iter_def receive_def shared_init_def process_exit Let_def)
  then show ?thesis using main_loops_close by blast
qed

subsection \<open>The main functions\<close>

fun created :: "control_msg zcall list \<Rightarrow> string list" where
  "created [] = []"
| "created (c # cs) = (case c of Thread_Create n \<Rightarrow> [n] | _ \<Rightarrow> []) @ created cs"

fun joined :: "control_msg zcall list \<Rightarrow> string list" where
  "joined [] = []"
| "joined (c # cs) = (case c of Thread_Join n \<Rightarrow> [n] | _ \<Rightarrow> []) @ joined cs"

lemma created_simps [simp]:
  "created (as @ bs) = created as @ created bs" "joined (as @ bs) = joined as @ joined bs"
  "created (map Thread_Create ns) = ns" "created (map Thread_Join ns) = []"
  "joined (map Thread_Create ns) = []" "joined (map Thread_Join ns) = ns"
  by (induction as, auto) (induction ns; simp)+

lemma track_threads [simp]:
  "track (map Thread_Create ns) hs = Some hs" "track (map Thread_Join ns) hs = Some hs"
  by (induction ns) auto

lemma length_thread_names [simp]: "length (thread_names tp) = nat (numThreads tp)"
  by (simp add: thread_names_def)

lemma main_calls_join:
  assumes "calls \<in> {cs. threads_main_calls ret tp = Inr cs \<or> clientserver_main_calls ret tp = Inr cs}"
  shows "track calls [] = Some [] \<and> mset (created calls) = mset (joined calls)
    \<and> length (created calls) \<ge> nat (numThreads tp) + 1"
  using assms
  by (auto simp: threads_main_calls_def clientserver_main_calls_def clientserver_sendCommand_def sender_defs
      bind_res_Inr_iff checked_iffs track_append split: if_splits)

text \<open>
  The main functions. On every command line they do not stop at, they terminate the
  context with no socket of their own open, and have joined each thread they created
  before; there is one for the main loop and one for each thread asked for.
\<close>

theorem mains_join_threads:
  assumes "Some (Inr (calls, code)) \<in> {pairs_main ret argv s, pubsub_main ret argv s, pushpull_main ret argv s,
      clientserver_main ret argv s}"
  obtains tp where "threads_parseParams argv = Some (Inr tp)" "track calls [] = Some []"
    "mset (created calls) = mset (joined calls)" "length (created calls) \<ge> nat (numThreads tp) + 1"
    "code = exit_code tp s"
proof -
  from assms obtain tp where tp: "threads_parseParams argv = Some (Inr tp)" "code = exit_code tp s"
    "calls \<in> {cs. threads_main_calls ret tp = Inr cs \<or> clientserver_main_calls ret tp = Inr cs}"
    by (auto simp: pairs_main_def pubsub_main_def pushpull_main_def clientserver_main_def main_with_def
        bind_res_Inr_iff dest!: sym [of "Some _"])
  from main_calls_join [OF tp(3)] tp show thesis by (intro that) auto
qed

theorem mains_join_threads_witness:
  "\<exists>calls. pubsub_main (ret_success msg_bytes) [] shared_init = Some (Inr (calls, 0)) \<and> track calls [] = Some []
     \<and> mset (created calls) = mset (joined calls)"
proof -
  have "threads_parseParams [] = Some (Inr thread_params_init)"
    by (simp add: threads_parseParams_def args_loop.simps)
  moreover have "exit_code thread_params_init shared_init = 0"
    by (simp add: exit_code_def checkResults_def printResults_def shared_init_def Let_def)
  ultimately obtain calls where c: "pubsub_main (ret_success msg_bytes) [] shared_init = Some (Inr (calls, 0))"
    using all_succeedD [OF all_succeed_ret_success [of msg_bytes]]
    by (simp add: pubsub_main_def main_with_def threads_main_calls_def sender_defs assert_nonnull_def
        assert_nonneg_def assert_that_def less_imp_neq [symmetric])
  then show ?thesis
    using mains_join_threads [of calls 0 "ret_success msg_bytes" "[]" shared_init] by (metis insertCI)
qed

subsection \<open>The command line\<close>

datatype thread_setting =
    Sleep_Secs int | Msgs int | Linger_Msecs int | Rate int | Threads int
  | Debug | Mutex | Poll_Connect | No_Wait | Quiet | Other string

fun thread_setting_args :: "thread_setting \<Rightarrow> string list" where
  "thread_setting_args (Sleep_Secs n) = [''-sleep'', dec_of n]"
| "thread_setting_args (Msgs n) = [''-msgs'', dec_of n]"
| "thread_setting_args (Linger_Msecs n) = [''-linger'', dec_of n]"
| "thread_setting_args (Rate n) = [''-rate'', dec_of n]"
| "thread_setting_args (Threads n) = [''-threads'', dec_of n]"
| "thread_setting_args Debug = [''-debug'']"
| "thread_setting_args Mutex = [''-mutex'']"
| "thread_setting_args Poll_Connect = [''-poll'']"
| "thread_setting_args No_Wait = [''-nowait'']"
| "thread_setting_args Quiet = [''-quiet'']"
| "thread_setting_args (Other s) = [s]"

fun apply_thread_setting :: "thread_setting \<Rightarrow> thread_params \<Rightarrow> thread_params" where
  "apply_thread_setting (Sleep_Secs n) p = p\<lparr>sleepDuration := n\<rparr>"
| "apply_thread_setting (Msgs n) p = p\<lparr>numMsgs := n\<rparr>"
| "apply_thread_setting (Linger_Msecs n) p = p\<lparr>tp_linger := n\<rparr>"
| "apply_thread_setting (Rate n) p = p\<lparr>msgSleep := rate_sleep n\<rparr>"
| "apply_thread_setting (Threads n) p = p\<lparr>numThreads := n\<rparr>"
| "apply_thread_setting Debug p = p\<lparr>debugFlag := True\<rparr>"
| "apply_thread_setting Mutex p = p\<lparr>mutexFlag := True\<rparr>"
| "apply_thread_setting Poll_Connect p = p\<lparr>tp_pollFlag := True\<rparr>"
| "apply_thread_setting No_Wait p = p\<lparr>dontWaitFlag := True\<rparr>"
| "apply_thread_setting Quiet p = p\<lparr>quietFlag := True\<rparr>"
| "apply_thread_setting (Other s) p = p"

definition no_option :: "string \<Rightarrow> bool" where
  "no_option s \<longleftrightarrow> find (\<lambda>(hit, act). hit s) thread_options = None"

fun thread_setting_ok :: "thread_setting \<Rightarrow> bool" where
  "thread_setting_ok (Sleep_Secs n) = int_range n"
| "thread_setting_ok (Msgs n) = int_range n"
| "thread_setting_ok (Linger_Msecs n) = int_range n"
| "thread_setting_ok (Rate n) = int_range n"
| "thread_setting_ok (Threads n) = int_range n"
| "thread_setting_ok (Other s) = no_option s"
| "thread_setting_ok _ = True"

lemma nocase_names:
  "\<forall>a \<in> set [''-sleep'', ''-msgs'', ''-linger'', ''-rate'', ''-threads''].
   \<forall>b \<in> set [''-sleep'', ''-msgs'', ''-linger'', ''-rate'', ''-threads'', ''-debug'', ''-mutex'', ''-poll'',
              ''-nowait'', ''-quiet'']. same_nocase a b \<longleftrightarrow> a = b"
  by code_simp

lemma thread_setting_args_nonempty: "thread_setting_args t \<noteq> []"
  by (cases t) auto

lemma thread_setting_consumed:
  assumes "thread_setting_ok t"
  shows "else_if_chain thread_options (pre @ thread_setting_args t @ post) (length pre, p)
    = Inr (length pre + length (thread_setting_args t) - 1, apply_thread_setting t p)"
proof -
  let ?argv = "pre @ thread_setting_args t @ post"
  have i: "length pre < length ?argv" by (cases t) auto
  show ?thesis
    unfolding else_if_chain_find [OF i]
    using assms nocase_names
    by (cases t) (simp_all add: thread_options_def no_option_def arg_str_def argv_at_def deref_def nth_append
        atoi_dec_of int_range_def)
qed

text \<open>
  The command line of the programs of threads/. Any sequence of options with their
  numbers and of arguments that are no option, the program's name among them, is read to
  its end without a fault, and leaves the settings applied one after the other.
\<close>

theorem threads_parseParams_well_formed:
  assumes "list_all thread_setting_ok ss"
  shows "threads_parseParams (concat (map thread_setting_args ss))
    = Some (Inr (fold apply_thread_setting ss thread_params_init))"
  using args_loop_items [of thread_setting_ok "else_if_chain thread_options" thread_setting_args
      apply_thread_setting ss "Suc (length (concat (map thread_setting_args ss)))" "[]" thread_params_init]
    thread_setting_consumed assms
  by (simp add: threads_parseParams_def thread_setting_args_nonempty)

theorem threads_parseParams_well_formed_witness:
  "threads_parseParams [''./pairs'', ''-msgs'', ''20'', ''-mutex'', ''-rate'', ''3'']
     = Some (Inr (thread_params_init\<lparr>numMsgs := 20, mutexFlag := True, msgSleep := 333333\<rparr>))"
proof -
  have "dec_of 20 = ''20''" "dec_of 3 = ''3''" "no_option ''./pairs''" by code_simp+
  moreover have "rate_sleep 3 = 333333" by code_simp
  ultimately show ?thesis
    using threads_parseParams_well_formed [of "[Other ''./pairs'', Msgs 20, Mutex, Rate 3]"]
    by (simp add: int_range_def thread_params_init_def)
qed

subsection \<open>The mutex of pairs.cpp\<close>

text \<open>
  A PAIR socket accepts one connection at a time, which is what \<^verbatim>\<open>-mutex\<close> is for. \<open>events\<close> are
  the calls of all command threads in the order they happen, each with its thread;
  \<open>mutex_ok\<close> says that the mutex was taken only while it was free, as a mutex guarantees.
\<close>

type_synonym event = "nat \<times> control_msg zcall"

fun mutex_ok :: "nat option \<Rightarrow> event list \<Rightarrow> bool" where
  "mutex_ok owner [] = True"
| "mutex_ok owner ((t, c) # es) =
     (case c of
        Mutex_Lock \<Rightarrow> owner = None \<and> mutex_ok (Some t) es
      | Mutex_Unlock \<Rightarrow> mutex_ok None es
      | _ \<Rightarrow> mutex_ok owner es)"

definition calls_by :: "nat \<Rightarrow> event list \<Rightarrow> control_msg zcall list" where
  "calls_by t es = map snd (filter (\<lambda>e. fst e = t) es)"

fun connected :: "event list \<Rightarrow> nat set \<Rightarrow> nat set" where
  "connected [] C = C"
| "connected ((t, c) # es) C =
     connected es (case c of Connect h e \<Rightarrow> insert t C | Disconnect h e \<Rightarrow> C - {t} | _ \<Rightarrow> C)"

text \<open>
  The discipline of one thread: it connects only while it holds the mutex, and gives the
  mutex up only when it is disconnected.
\<close>

fun guarded :: "bool \<Rightarrow> bool \<Rightarrow> control_msg zcall list \<Rightarrow> bool" where
  "guarded held conn [] = True"
| "guarded held conn (c # cs) =
     (case c of
        Mutex_Lock \<Rightarrow> \<not> held \<and> guarded True conn cs
      | Mutex_Unlock \<Rightarrow> held \<and> \<not> conn \<and> guarded False conn cs
      | Connect h e \<Rightarrow> held \<and> guarded held True cs
      | Disconnect h e \<Rightarrow> guarded held False cs
      | _ \<Rightarrow> guarded held conn cs)"

lemma guarded_prefix: "guarded held conn (cs @ ds) \<Longrightarrow> guarded held conn cs"
  by (induction cs arbitrary: held conn) (auto split: zcall.splits)

lemma calls_by_Cons: "calls_by t ((u, c) # es) = (if u = t then c # calls_by t es else calls_by t es)"
  by (simp add: calls_by_def)

lemma exclusive:
  assumes "\<And>t. guarded (owner = Some t) (t \<in> C) (calls_by t es)" "mutex_ok owner es" "C \<subseteq> set_option owner"
  shows "\<exists>owner'. connected es C \<subseteq> set_option owner'"
  using assms
proof (induction es arbitrary: owner C)
  case Nil
  then show ?case by auto
next
  case (Cons e es)
  obtain u c where e: "e = (u, c)" by (cases e)
  have g: "guarded (owner = Some u) (u \<in> C) (c # calls_by u es)"
    using Cons.prems(1) [of u] by (simp add: e calls_by_Cons)
  have other: "guarded (owner = Some t) (t \<in> C) (calls_by t es)" if "t \<noteq> u" for t
    using Cons.prems(1) [of t] that by (simp add: e calls_by_Cons)
  define owner' where "owner' = (case c of Mutex_Lock \<Rightarrow> Some u | Mutex_Unlock \<Rightarrow> None | _ \<Rightarrow> owner)"
  define C' where "C' = (case c of Connect h e \<Rightarrow> insert u C | Disconnect h e \<Rightarrow> C - {u} | _ \<Rightarrow> C)"
  have ok: "mutex_ok owner' es" using Cons.prems(2) by (cases c) (auto simp: e owner'_def)
  have sub: "C' \<subseteq> set_option owner'"
    using Cons.prems(2,3) g by (cases c) (auto simp: e owner'_def C'_def)
  have "guarded (owner' = Some t) (t \<in> C') (calls_by t es)" for t
  proof (cases "t = u")
    case True
    with g show ?thesis by (cases c) (auto simp: owner'_def C'_def)
  next
    case False
    with other [OF False] g Cons.prems(2) show ?thesis by (cases c) (auto simp: e owner'_def C'_def)
  qed
  from Cons.IH [OF this ok sub] show ?case by (simp add: e C'_def)
qed

definition guarded_block :: "control_msg zcall list \<Rightarrow> bool" where
  "guarded_block cs \<longleftrightarrow> (\<forall>ds. guarded False False (cs @ ds) = guarded False False ds)"

lemma pairs_guarded_block:
  assumes "mutexFlag tp" "pairs_sendCommand ret tp t has m = Inr cs"
  shows "guarded_block (cs @ [Usleep n])"
  using assms
  by (auto simp: guarded_block_def pairs_sendCommand_def sender_defs bind_res_Inr_iff checked_iffs split: if_splits)

interpretation pairs_blocks: traced_loop "command_iter tp a (pairs_sendCommand ret tp t)" "\<lambda>_. mutexFlag tp"
  "\<lambda>h (_ :: shared \<times> bool). guarded_block h"
proof unfold_locales
  fix h acts :: "control_msg zcall list" and s s' :: "shared \<times> bool" and going stop
  assume "guarded_block h" "mutexFlag tp" "command_iter tp a (pairs_sendCommand ret tp t) going s = Inr (s', acts, stop)"
  then show "guarded_block (h @ acts)"
    using pairs_guarded_block [of tp ret t]
    by (auto simp: command_iter_def bind_res_Inr_iff guarded_block_def split: prod.splits if_splits)
qed

text \<open>
  C18. Mutual exclusion. With \<^verbatim>\<open>-mutex\<close>, however the command threads of pairs.cpp are
  interleaved and wherever they stand, at most one of them is connected to the control
  socket.
\<close>

theorem pairs_mutual_exclusion:
  assumes "mutexFlag tp" "mutex_ok None events"
    and "\<And>t. \<exists>k s r rest stop. command_trace tp t (pairs_sendCommand ret tp t) k s = Inr (r, calls_by t events @ rest, stop)"
  shows "\<exists>owner. connected events {} \<subseteq> set_option owner"
proof (rule exclusive)
  show "guarded (None = Some t) (t \<in> {}) (calls_by t events)" for t
  proof -
    from assms(3) [of t] obtain k s r rest stop where
      run: "run_loop (command_iter tp (Command_Thread t) (pairs_sendCommand ret tp t)) (replicate k True) (s, False)
        = Inr (r, calls_by t events @ rest, stop)"
      unfolding command_trace_def by blast
    have "guarded_block (calls_by t events @ rest)"
      using pairs_blocks.good_run [OF _ _ run, of "[]"] assms(1) by (simp add: guarded_block_def list_all_iff)
    then have "guarded False False (calls_by t events @ rest)"
      unfolding guarded_block_def by (metis append_Nil2 guarded.simps(1))
    then show ?thesis by (simp add: guarded_prefix)
  qed
  show "mutex_ok None events" by (rule assms(2))
qed simp

definition demo_events :: "event list" where
  "demo_events = map (Pair 0) [Socket (Tls 0) ZMQ_PAIR, Setsockopt (Tls 0) (Linger 30000), Tls_Set 0 (Tls 0),
     Mutex_Lock, Connect (Tls 0) CONTROL_ENDPOINT]"

theorem pairs_mutual_exclusion_witness:
  "connected demo_events {} = {0} \<and> (\<exists>owner. connected demo_events {} \<subseteq> set_option owner)"
proof
  show "connected demo_events {} = {0}" by (simp add: demo_events_def)
  let ?tp = "tp1\<lparr>mutexFlag := True\<rparr>"
  have "mutexFlag ?tp" by simp
  moreover have "mutex_ok None demo_events" by (simp add: demo_events_def)
  moreover have "\<exists>k s r rest stop. command_trace ?tp t (pairs_sendCommand (ret_success msg_bytes) ?tp t) k s
      = Inr (r, calls_by t demo_events @ rest, stop)" for t
  proof (cases "t = 0")
    case True
    have "calls_by 0 demo_events = map snd demo_events" by (simp add: demo_events_def calls_by_def)
    then show ?thesis
      using all_succeedD [OF all_succeed_ret_success [of msg_bytes]]
      by (intro exI [of _ 1] exI [of _ shared_init])
        (simp add: True command_trace_def command_iter_def commandLoop_round_def sm_index_def shared_init_def
          pairs_sendCommand_def sender_defs if_then_def assert_nonnull_def assert_nonneg_def assert_that_def
          less_imp_neq [symmetric] demo_events_def tp1_def thread_params_init_def Let_def, blast)
  next
    case False
    then have "calls_by t demo_events = []" by (simp add: calls_by_def demo_events_def)
    then show ?thesis by (intro exI [of _ 0]) (simp add: command_trace_def, blast)
  qed
  ultimately show "\<exists>owner. connected demo_events {} \<subseteq> set_option owner"
    by (rule pairs_mutual_exclusion)
qed

end
