(* ===== verification/Interleaving.thy ===== *)
theory Interleaving
  imports Zmq_Calls
begin

section \<open>Programs of several threads\<close>

text \<open>
  The calls of all threads of a program in the order in which they happen, each tagged with
  its thread. A thread is live from its creation to the moment it is joined, and only a live
  thread makes calls; otherwise the order is arbitrary.
\<close>

type_synonym 'm tagged = "string \<times> 'm zcall"

definition calls_by :: "string \<Rightarrow> 'm tagged list \<Rightarrow> 'm zcall list" where
  "calls_by n w = map snd (filter (\<lambda>e. fst e = n) w)"

fun live_step :: "'m zcall \<Rightarrow> string list \<Rightarrow> string list" where
  "live_step (Thread_Create n) live = n # live"
| "live_step (Thread_Join n) live = removeAll n live"
| "live_step c live = live"

fun admissible :: "string list \<Rightarrow> 'm tagged list \<Rightarrow> bool" where
  "admissible live [] = True"
| "admissible live ((n, c) # w) \<longleftrightarrow> n \<in> set live \<and> admissible (live_step c live) w"

text \<open>The sockets a call concerns, the one it makes included.\<close>

fun mentions :: "'m zcall \<Rightarrow> handle list" where
  "mentions (Socket h k) = [h]"
| "mentions c = uses c"

text \<open>
  Sockets that two threads use must be of a type that libzmq makes thread safe.
\<close>

definition shares_only :: "kind set \<Rightarrow> 'm tagged list \<Rightarrow> bool" where
  "shares_only K w \<longleftrightarrow>
     (\<forall>(m, c) \<in> set w. \<forall>(n, d) \<in> set w. m \<noteq> n \<longrightarrow>
        (\<forall>h \<in> set (mentions c) \<inter> set (mentions d). \<forall>k. Socket h k \<in> snd ` set w \<longrightarrow> k \<in> K))"

definition threadless :: "'m zcall \<Rightarrow> bool" where
  "threadless c \<longleftrightarrow> (\<forall>live. live_step c live = live)"

lemma threadless_iff: "threadless c \<longleftrightarrow> (\<forall>n. c \<noteq> Thread_Create n \<and> c \<noteq> Thread_Join n)"
proof
  assume t: "threadless c"
  show "\<forall>n. c \<noteq> Thread_Create n \<and> c \<noteq> Thread_Join n"
  proof (intro allI conjI notI)
    fix n
    { assume "c = Thread_Create n" with t show False by (auto simp: threadless_def) }
    { assume "c = Thread_Join n" with t have "live_step (Thread_Join n :: 'a zcall) [n] = [n]"
        unfolding threadless_def by blast
      then show False by simp }
  qed
next
  assume "\<forall>n. c \<noteq> Thread_Create n \<and> c \<noteq> Thread_Join n"
  then show "threadless c" by (cases c) (auto simp: threadless_def)
qed

lemma threadless_simps [simp]:
  "\<not> threadless (Thread_Create n)" "\<not> threadless (Thread_Join n)" "threadless (Socket h k)"
  "threadless (Close h)" "threadless (Send h m b)" "threadless (Recv h b)" "threadless (Poll hs t)"
  "threadless (Connect h a)" "threadless (Bind h a)" "threadless (Disconnect h a)"
  "threadless (Setsockopt h so)" "threadless (Getsockopt h go)" "threadless (Monitor h ma)"
  "threadless Ctx_New" "threadless Ctx_Shutdown" "threadless Ctx_Term" "threadless (Ctx_Set_Blocky b)"
  "threadless (Usleep t)" "threadless (Tls_Set i h)" "threadless Mutex_Lock" "threadless Mutex_Unlock"
  by (simp_all add: threadless_iff)

lemma mentions_neutral: "neutral c \<Longrightarrow> mentions c = uses c"
  by (cases c) auto

subsection \<open>Calls that stay with some sockets\<close>

text \<open>
  \<open>within own shared cs\<close>: a thread that makes and closes sockets of its own only, and besides
  them uses the shared ones.
\<close>

definition within :: "handle set \<Rightarrow> handle set \<Rightarrow> 'm zcall list \<Rightarrow> bool" where
  "within own shared cs \<longleftrightarrow>
     list_all (\<lambda>c. c \<noteq> Ctx_Term \<and> set (mentions c) \<subseteq> own \<union> shared \<and> (neutral c \<or> set (mentions c) \<subseteq> own)) cs"

lemma within_simps [simp]:
  "within H S []"
  "within H S (c # cs) \<longleftrightarrow> c \<noteq> Ctx_Term \<and> set (mentions c) \<subseteq> H \<union> S \<and> (neutral c \<or> set (mentions c) \<subseteq> H) \<and> within H S cs"
  "within H S (as @ bs) \<longleftrightarrow> within H S as \<and> within H S bs"
  by (auto simp: within_def)

lemma within_mono: "within H S cs \<Longrightarrow> H \<subseteq> H' \<Longrightarrow> S \<subseteq> S' \<Longrightarrow> within H' S' cs"
  by (auto simp: within_def list_all_iff)

lemma within_neutral:
  "list_all (\<lambda>c. neutral c \<and> set (uses c) \<subseteq> H \<union> S) cs \<Longrightarrow> within H S cs"
  by (auto simp: within_def list_all_iff mentions_neutral)

text \<open>The threads other than the main one start and join no further ones.\<close>

definition worker :: "handle set \<Rightarrow> handle set \<Rightarrow> 'm zcall list \<Rightarrow> bool" where
  "worker own shared cs \<longleftrightarrow> within own shared cs \<and> list_all threadless cs"

lemma worker_simps [simp]:
  "worker H S []"
  "worker H S (c # cs) \<longleftrightarrow> threadless c \<and> c \<noteq> Ctx_Term \<and> set (mentions c) \<subseteq> H \<union> S \<and> (neutral c \<or> set (mentions c) \<subseteq> H)
     \<and> worker H S cs"
  "worker H S (as @ bs) \<longleftrightarrow> worker H S as \<and> worker H S bs"
  by (auto simp: worker_def)

lemma worker_mono: "worker H S cs \<Longrightarrow> H \<subseteq> H' \<Longrightarrow> S \<subseteq> S' \<Longrightarrow> worker H' S' cs"
  by (auto simp: worker_def intro: within_mono)

lemma track_distinct: "track cs hs = Some hs' \<Longrightarrow> distinct hs \<Longrightarrow> distinct hs'"
proof (induction cs arbitrary: hs)
  case (Cons c cs)
  then obtain hs1 where "track_call c hs = Some hs1" "track cs hs1 = Some hs'"
    by (auto simp: bind_eq_Some_conv)
  moreover from this(1) Cons.prems(2) have "distinct hs1"
    by (cases "neutral c") (simp add: track_call_neutral split: if_splits, cases c, auto split: if_splits)
  ultimately show ?case using Cons.IH by blast
qed simp

text \<open>Sockets that are not used do not matter.\<close>

lemma track_frame:
  "within H {} cs \<Longrightarrow> H \<inter> set B = {} \<Longrightarrow> track cs hs = Some hs' \<Longrightarrow> track cs (hs @ B) = Some (hs' @ B)"
proof (induction cs arbitrary: hs)
  case (Cons c cs)
  then obtain hs1 where hs1: "track_call c hs = Some hs1" "track cs hs1 = Some hs'"
    by (auto simp: bind_eq_Some_conv)
  have "track_call c (hs @ B) = Some (hs1 @ B)"
  proof (cases "neutral c")
    case True
    with hs1(1) show ?thesis by (auto simp: track_call_neutral list_all_iff split: if_splits)
  next
    case False
    with Cons.prems(1) consider h k where "c = Socket h k" "h \<in> H" | h where "c = Close h" "h \<in> H"
      by (cases c) auto
    then show ?thesis using hs1(1) Cons.prems(2) by cases (auto simp: remove1_append split: if_splits)
  qed
  with hs1(2) Cons show ?case by simp
qed simp

lemma calls_by_simps [simp]:
  "calls_by m [] = []" "calls_by m ((n, c) # w) = (if n = m then c # calls_by m w else calls_by m w)"
  "calls_by m (v @ w) = calls_by m v @ calls_by m w"
  "calls_by m (map (Pair n) cs) = (if n = m then cs else [])"
  by (auto simp: calls_by_def o_def)

lemma calls_by_member: "(n, c) \<in> set w \<longleftrightarrow> c \<in> set (calls_by n w)"
  by (force simp: calls_by_def)

section \<open>Interleaved traces\<close>

text \<open>
  The state of the sockets in the interleaving, seen by one thread, is the state it would have
  if it were alone with the shared sockets.
\<close>

lemma track_call_part:
  assumes "track_call c hn = Some hn'" "c \<noteq> Ctx_Term" "set (mentions c) \<subseteq> Own \<union> B" "neutral c \<or> set (mentions c) \<subseteq> Own"
    and "set hn = set hs \<inter> (Own \<union> B)" "distinct hn" "distinct hs" "Own \<inter> B = {}"
  shows "\<exists>hs'. track_call c hs = Some hs' \<and> distinct hs' \<and> distinct hn' \<and> set hn' = set hs' \<inter> (Own \<union> B) \<and> set hs' - Own = set hs - Own"
proof (cases "neutral c")
  case True
  with assms(1) have hn: "hn' = hn" "list_all (\<lambda>h. h \<in> set hn) (uses c)" by (auto simp: track_call_neutral split: if_splits)
  then have "list_all (\<lambda>h. h \<in> set hs) (uses c)" using assms(5) by (auto simp: list_all_iff)
  with True hn(1) assms(5-7) show ?thesis by (simp add: track_call_neutral)
next
  case False
  with assms(2) consider h k where "c = Socket h k" | h where "c = Close h" by (cases c) auto
  then show ?thesis
  proof cases
    case 1
    with False assms(1,4) have "hn' = h # hn" "h \<in> Own" "h \<notin> set hn" by (auto split: if_splits)
    with 1 assms(5-7) show ?thesis by auto
  next
    case 2
    with False assms(1,4) have "hn' = remove1 h hn" "h \<in> Own" "h \<in> set hn" by (auto split: if_splits)
    with 2 assms(5-8) show ?thesis by auto
  qed
qed

lemma interleaved_track:
  assumes "\<And>n. within (own n) (set base) (calls_by n w)" "\<And>n. track (calls_by n w) base \<noteq> None"
    and "\<And>m n. m \<noteq> n \<Longrightarrow> own m \<inter> own n = {}" "\<And>n. own n \<inter> set base = {}" "distinct base"
  shows "\<exists>hs. track (map snd w) base = Some hs \<and> distinct hs \<and> set base \<subseteq> set hs \<and> set hs \<subseteq> set base \<union> (\<Union>n. own n)
    \<and> (\<forall>n. \<exists>hn. track (calls_by n w) base = Some hn \<and> distinct hn \<and> set hn = set hs \<inter> (own n \<union> set base))"
  using assms(1,2)
proof (induction w rule: rev_induct)
  case Nil
  then show ?case using assms(5) by auto
next
  case (snoc e w)
  obtain n c where e: "e = (n, c)" by (cases e)
  have part: "c \<noteq> Ctx_Term" "set (mentions c) \<subseteq> own n \<union> set base" "neutral c \<or> set (mentions c) \<subseteq> own n"
    using snoc.prems(1) [of n] by (auto simp: e)
  have win: "within (own m) (set base) (calls_by m w)" for m
    using snoc.prems(1) [of m] by (auto simp: e split: if_splits)
  have pre: "track (calls_by m w) base \<noteq> None" for m
    using snoc.prems(2) [of m] by (auto simp: e track_append bind_eq_Some_conv split: if_splits)
  from snoc.IH [OF win pre] obtain hs where hs: "track (map snd w) base = Some hs" "distinct hs"
    "set base \<subseteq> set hs" "set hs \<subseteq> set base \<union> (\<Union>n. own n)"
    "\<forall>n. \<exists>hn. track (calls_by n w) base = Some hn \<and> distinct hn \<and> set hn = set hs \<inter> (own n \<union> set base)" by auto
  from hs(5) obtain hn where hn: "track (calls_by n w) base = Some hn" "distinct hn"
    "set hn = set hs \<inter> (own n \<union> set base)" by blast
  from snoc.prems(2) [of n] hn(1) obtain hn' where hn': "track_call c hn = Some hn'"
    by (auto simp: e track_append bind_eq_Some_conv)
  from track_call_part [OF hn' part hn(3,2) hs(2) assms(4)] obtain hs' where hs': "track_call c hs = Some hs'"
    "distinct hs'" "distinct hn'" "set hn' = set hs' \<inter> (own n \<union> set base)" "set hs' - own n = set hs - own n" by blast
  have "\<exists>hm. track (calls_by m (w @ [e])) base = Some hm \<and> distinct hm \<and> set hm = set hs' \<inter> (own m \<union> set base)" for m
  proof (cases "m = n")
    case True
    with hn(1) hn' hs'(3,4) show ?thesis by (simp add: e track_append)
  next
    case False
    from hs(5) obtain hm where "track (calls_by m w) base = Some hm" "distinct hm"
      "set hm = set hs \<inter> (own m \<union> set base)" by blast
    moreover have "set hs \<inter> (own m \<union> set base) = set hs' \<inter> (own m \<union> set base)"
      using assms(3) [OF False] assms(4) [of n] hs'(5) by blast
    ultimately show ?thesis using False by (simp add: e)
  qed
  moreover have "track (map snd (w @ [e])) base = Some hs'" using hs(1) hs'(1) by (simp add: e track_append)
  moreover have "set base \<subseteq> set hs'" "set hs' \<subseteq> set base \<union> (\<Union>n. own n)"
    using hs(3,4) hs'(5) assms(4) [of n] by blast+
  ultimately show ?case using hs'(2) by blast
qed

section \<open>The main thread and the others\<close>

text \<open>
  A program whose main thread works alone, starts the others, joins them all, and is alone
  again: its trace has these three parts.
\<close>

lemma main_alone:
  assumes "admissible [''main''] w" "calls_by ''main'' w = cs @ ds" "list_all threadless cs"
  shows "\<exists>w'. w = map (Pair ''main'') cs @ w' \<and> admissible [''main''] w' \<and> calls_by ''main'' w' = ds"
  using assms
proof (induction cs arbitrary: w)
  case (Cons c cs)
  then obtain n c' w0 where w: "w = (n, c') # w0" by (cases w) auto
  with Cons.prems have "n = ''main''" "c' = c" "live_step c [''main''] = [''main'']"
    by (auto simp: threadless_def)
  with w Cons.prems Cons.IH [of w0] show ?case by auto
qed simp

lemma calls_split:
  "calls_by n w = xs @ y # ys \<Longrightarrow> \<exists>u v. w = u @ (n, y) # v \<and> calls_by n u = xs \<and> calls_by n v = ys"
proof (induction w arbitrary: xs)
  case (Cons e w)
  obtain m c where e: "e = (m, c)" by (cases e)
  show ?case
  proof (cases "m = n \<and> xs = []")
    case True
    with Cons.prems e show ?thesis by (intro exI [of _ "[]"] exI [of _ w]) simp
  next
    case False
    obtain xs' where "calls_by n w = xs' @ y # ys" "xs = (if m = n then c # xs' else xs')"
      using Cons.prems e False by (cases "m = n"; cases xs) auto
    with Cons.IH [of xs'] obtain u v where "w = u @ (n, y) # v" "calls_by n u = xs'" "calls_by n v = ys" by blast
    then show ?thesis using e \<open>xs = _\<close> by (intro exI [of _ "e # u"] exI [of _ v]) auto
  qed
qed simp

lemma admissible_append:
  "admissible live (u @ v) \<longleftrightarrow> admissible live u \<and> admissible (fold live_step (map snd u) live) v"
proof (induction u arbitrary: live)
  case (Cons e u)
  then show ?case by (cases e) (simp add: conj_assoc)
qed simp

lemma live_of_main:
  assumes "\<And>n. n \<noteq> ''main'' \<Longrightarrow> list_all threadless (calls_by n u)"
  shows "fold live_step (map snd u) live = fold live_step (calls_by ''main'' u) live"
proof -
  have "\<forall>(n, c) \<in> set u. n \<noteq> ''main'' \<longrightarrow> threadless c"
    using assms by (auto simp: calls_by_member list_all_iff)
  then show ?thesis by (induction u arbitrary: live) (auto simp: threadless_def)
qed

lemma process_parts:
  assumes "admissible [''main''] w" "calls_by ''main'' w = before @ during @ after"
    and "list_all threadless before" "list_all threadless after" "during \<noteq> []" "fold live_step during [''main''] = [''main'']"
    and "\<And>n. n \<noteq> ''main'' \<Longrightarrow> list_all threadless (calls_by n w)"
  shows "\<exists>u. w = map (Pair ''main'') before @ u @ map (Pair ''main'') after \<and> calls_by ''main'' u = during"
proof -
  obtain w1 where w1: "w = map (Pair ''main'') before @ w1" "admissible [''main''] w1" "calls_by ''main'' w1 = during @ after"
    using main_alone [OF assms(1,2,3)] by blast
  from assms(5) obtain ds d where ds: "during = ds @ [d]" by (cases during rule: rev_cases) auto
  with w1(3) have "calls_by ''main'' w1 = ds @ d # after" by simp
  from calls_split [OF this] obtain u v where uv: "w1 = (u @ [(''main'', d)]) @ v" "calls_by ''main'' u = ds"
    "calls_by ''main'' v = after" by auto
  let ?u = "u @ [(''main'', d)]"
  have u: "calls_by ''main'' ?u = during" using uv(2) ds by simp
  have "fold live_step (map snd ?u) [''main''] = [''main'']"
  proof (subst live_of_main)
    show "list_all threadless (calls_by n ?u)" if "n \<noteq> ''main''" for n
      using assms(7) [OF that] that by (simp add: w1(1) uv(1))
  qed (simp only: u assms(6))
  with w1(2) uv(1) have "admissible [''main''] v" by (simp only: admissible_append)
  from main_alone [OF this _ assms(4), of "[]"] uv(3) obtain v' where
    v: "v = map (Pair ''main'') after @ v'" "admissible [''main''] v'" "calls_by ''main'' v' = []" by auto
  then have "v' = []" by (cases v') auto
  with w1(1) uv(1) v(1) u show ?thesis by (intro exI [of _ ?u]) simp
qed

text \<open>
  What a thread must do for the whole to be in order: it leaves the shared sockets as it
  found them, and none of its own open.
\<close>

definition tidy :: "handle set \<Rightarrow> handle list \<Rightarrow> 'm zcall list \<Rightarrow> bool" where
  "tidy own base cs \<longleftrightarrow> within own (set base) cs \<and> (\<exists>hs. track cs base = Some hs \<and> set hs = set base)"

text \<open>A thread without sockets of its own cannot disturb the shared ones.\<close>

lemma tidy_shared:
  assumes "within {} (set base) cs"
  shows "tidy {} base cs"
proof -
  have "neutral c \<and> set (uses c) \<subseteq> set base" if "c \<in> set cs" for c
  proof -
    from that assms have c: "c \<noteq> Ctx_Term" "set (mentions c) \<subseteq> set base" "neutral c \<or> mentions c = []"
      by (auto simp: within_def list_all_iff)
    then have "neutral c" by (cases c) auto
    with c(2) show ?thesis by (simp add: mentions_neutral)
  qed
  then have "track cs base = Some base" by (intro track_neutral) blast
  with assms show ?thesis by (auto simp: tidy_def)
qed

lemma tidy_Nil [simp]: "tidy own base []"
  by (simp add: tidy_def)

lemma process_in_order:
  assumes "admissible [''main''] w" "calls_by ''main'' w = before @ during @ after"
    and "list_all threadless before" "list_all threadless after" "during \<noteq> []" "fold live_step during [''main''] = [''main'']"
    and threads: "\<And>n. n \<noteq> ''main'' \<Longrightarrow> list_all threadless (calls_by n w) \<and> tidy (own n) base (calls_by n w)"
    and main: "tidy (own ''main'') base during"
    and opened: "track before [] = Some base"
    and closed: "\<And>hs. distinct hs \<Longrightarrow> set hs = set base \<Longrightarrow> track after hs = Some []"
    and disjoint: "\<And>m n. m \<noteq> n \<Longrightarrow> own m \<inter> own n = {}" "\<And>n. own n \<inter> set base = {}"
  shows "track (map snd w) [] = Some []
    \<and> (\<exists>u. w = map (Pair ''main'') before @ u @ map (Pair ''main'') after \<and> (\<forall>n. within (own n) (set base) (calls_by n u)))"
proof -
  obtain u where w: "w = map (Pair ''main'') before @ u @ map (Pair ''main'') after" and u: "calls_by ''main'' u = during"
    using process_parts [OF assms(1-6)] threads by blast
  have tidy: "tidy (own n) base (calls_by n u)" for n
    using threads [of n] main u by (cases "n = ''main''") (simp_all add: w)
  have "distinct base" using track_distinct [OF opened] by simp
  have parts: "within (own n) (set base) (calls_by n u)" "track (calls_by n u) base \<noteq> None" for n
    using tidy [of n] by (auto simp: tidy_def)
  from interleaved_track [OF parts disjoint \<open>distinct base\<close>] obtain hs where
    hs: "track (map snd u) base = Some hs" "distinct hs" "set base \<subseteq> set hs" "set hs \<subseteq> set base \<union> (\<Union>n. own n)"
    "\<forall>n. \<exists>hn. track (calls_by n u) base = Some hn \<and> distinct hn \<and> set hn = set hs \<inter> (own n \<union> set base)" by blast
  have "set hs \<inter> (own n \<union> set base) = set base" for n
  proof -
    from hs(5) obtain hn where "track (calls_by n u) base = Some hn" "set hn = set hs \<inter> (own n \<union> set base)" by blast
    with tidy [of n] show ?thesis by (auto simp: tidy_def)
  qed
  with hs(3,4) have "set hs = set base" by blast
  with closed hs(2) have "track after hs = Some []" by blast
  with opened hs(1) have "track (map snd w) [] = Some []" by (simp add: w track_append o_def)
  with w parts show ?thesis by blast
qed

text \<open>Two threads share only sockets that were there before the second one was started.\<close>

lemma process_shares:
  assumes "w = map (Pair ''main'') before @ u @ map (Pair ''main'') after"
    and "\<And>n. within (own n) (set base) (calls_by n u)" "\<And>m n. m \<noteq> n \<Longrightarrow> own m \<inter> own n = {}"
    and "\<And>n. own n \<inter> set base = {}"
    and "\<forall>c \<in> set (before @ after). set (mentions c) \<subseteq> set base"
    and "\<And>h k. h \<in> set base \<Longrightarrow> Socket h k \<in> set (before @ after) \<Longrightarrow> k \<in> K"
  shows "shares_only K w"
proof -
  have mem: "set (mentions c) \<subseteq> own n \<union> set base" "\<And>h k. c = Socket h k \<Longrightarrow> h \<in> set base \<Longrightarrow> k \<in> K"
    if "(n, c) \<in> set w" for n c
  proof -
    from that assms(1) consider "c \<in> set (before @ after)" | "c \<in> set (calls_by n u)"
      by (auto simp: calls_by_member)
    then have "set (mentions c) \<subseteq> own n \<union> set base \<and> (\<forall>h k. c = Socket h k \<longrightarrow> h \<in> set base \<longrightarrow> k \<in> K)"
    proof cases
      case 1
      with assms(5,6) show ?thesis by blast
    next
      case 2
      with assms(2) [of n] have "set (mentions c) \<subseteq> own n \<union> set base" "neutral c \<or> set (mentions c) \<subseteq> own n"
        by (auto simp: within_def list_all_iff)
      with assms(4) [of n] show ?thesis by auto
    qed
    then show "set (mentions c) \<subseteq> own n \<union> set base" "\<And>h k. c = Socket h k \<Longrightarrow> h \<in> set base \<Longrightarrow> k \<in> K" by blast+
  qed
  have "k \<in> K" if w: "(m, c) \<in> set w" "(n, d) \<in> set w" "m \<noteq> n" "h \<in> set (mentions c)" "h \<in> set (mentions d)"
    "(l, Socket h k) \<in> set w" for m c n d h k l
  proof -
    from mem(1) [OF w(1)] mem(1) [OF w(2)] w(4,5) assms(3) [OF w(3)] have "h \<in> set base" by blast
    with mem(2) [OF w(6)] show ?thesis by blast
  qed
  then show ?thesis by (fastforce simp: shares_only_def)
qed

end
