(* ===== verification/Threads_Whole.thy ===== *)
theory Threads_Whole
  imports Threads_Properties Interleaving
begin

section \<open>Whole programs of threads/\<close>

text \<open>
  A complete run of pairs.cpp, pubsub.cpp or pushpull.cpp: the calls of the main thread, of
  the main loop, of the command threads and of the shutdown thread, interleaved in any
  order the creation and joining of threads allow. A thread that has a socket in its
  thread-local store closes it when it ends: \<^verbatim>\<open>cleanupSocket\<close> is the destructor of the key. What
  each thread receives and reads of the shared variables is left open, so that the statements
  cover more runs than the programs have. A run of clientserver.cpp follows below.
\<close>

subsection \<open>Threads with their destructors\<close>

definition cleanupSocket :: "control_msg returns \<Rightarrow> nat \<Rightarrow> bool \<Rightarrow> fault + control_msg zcall list" where
  "cleanupSocket ret t has = if_then has (closeSocket ret (Tls t))"

definition command_thread ::
  "control_msg returns \<Rightarrow> thread_params \<Rightarrow> nat \<Rightarrow> sender \<Rightarrow> bool list \<Rightarrow> shared \<Rightarrow> fault + control_msg zcall list \<times> bool" where
  "command_thread ret tp t send goings s =
     bind_res (run_loop (command_iter tp (Command_Thread t) send) goings (s, False)) (\<lambda>((s', has), acts, stopped).
     bind_res (if_then stopped (cleanupSocket ret t has)) (\<lambda>closed. Inr (acts @ closed, stopped)))"

definition shutdown_thread :: "control_msg returns \<Rightarrow> nat \<Rightarrow> sender \<Rightarrow> fault + control_msg zcall list" where
  "shutdown_thread ret t send = stmts [shutdownFunc send, cleanupSocket ret t True]"

text \<open>On an interrupt the program prints all counters and exits: the lines and the exit code.\<close>

definition onSignal :: "thread_params \<Rightarrow> shared \<Rightarrow> (ptr \<times> int \<times> int) list \<times> int" where
  "onSignal tp s = (fst (printResults (tp\<lparr>quietFlag := False\<rparr>) s), 1)"

subsection \<open>Complete runs\<close>

definition complete_run ::
  "control_msg returns \<Rightarrow> thread_params \<Rightarrow> (nat \<Rightarrow> sender) \<Rightarrow> kind \<times> bool \<Rightarrow> control_msg tagged list \<Rightarrow> bool" where
  "complete_run ret tp send control w \<longleftrightarrow>
     admissible [''main''] w
     \<and> fst ` set w \<subseteq> {''main'', ''mainThread'', ''shutdownThread''} \<union> set (thread_names tp)
     \<and> threads_main_calls ret tp = Inr (calls_by ''main'' w)
     \<and> (\<exists>inputs s s'. mainLoop ret tp (Some (th_controlSub, control)) inputs s = Inr (s', calls_by ''mainThread'' w, True))
     \<and> (\<forall>i < nat (numThreads tp). \<exists>goings s. command_thread ret tp i (send i) goings s
           = Inr (calls_by (''commandThread'' @ dec_of_nat i) w, True))
     \<and> shutdown_thread ret (nat (numThreads tp)) (send (nat (numThreads tp))) = Inr (calls_by ''shutdownThread'' w)"

text \<open>
  clientserver.cpp makes its control sockets before it starts the threads, which share them,
  and sends the exit message from the main thread; its threads have no store of their own.
\<close>

definition clientserver_run :: "control_msg returns \<Rightarrow> thread_params \<Rightarrow> control_msg tagged list \<Rightarrow> bool" where
  "clientserver_run ret tp w \<longleftrightarrow>
     admissible [''main''] w
     \<and> fst ` set w \<subseteq> {''main'', ''mainThread''} \<union> set (thread_names tp)
     \<and> clientserver_main_calls ret tp = Inr (calls_by ''main'' w)
     \<and> (\<exists>inputs s s'. clientserver_mainLoop ret tp inputs s = Inr (s', calls_by ''mainThread'' w, True))
     \<and> (\<forall>i < nat (numThreads tp). \<exists>goings st st'. run_loop
           (command_iter tp (Command_Thread i) (clientserver_sendCommand ret tp i)) goings st
           = Inr (st', calls_by (''commandThread'' @ dec_of_nat i) w, True))"

section \<open>What each thread uses\<close>

lemma senders_within:
  "pairs_sendCommand ret tp t has m = Inr cs \<Longrightarrow> worker {Tls t} {} cs"
  "pubsub_sendCommand ret tp t has m = Inr cs \<Longrightarrow> worker {Tls t} {} cs"
  "pushpull_sendCommand ret tp t has m = Inr cs \<Longrightarrow> worker {Tls t} {} cs"
  by (auto simp: pairs_sendCommand_def pubsub_sendCommand_def pushpull_sendCommand_def sender_defs
      bind_res_Inr_iff checked_iffs split: if_splits)

lemma main_loop_worker:
  assumes "run_loop main_iter inputs s = Inr (s', acts, stop)" "{th_controlSub, th_dataSub} \<subseteq> H \<union> S"
  shows "worker H S acts"
proof -
  have "traced_loop main_iter (\<lambda>_. True) (\<lambda>h (_ :: shared). worker H S h)"
    using assms(2) by unfold_locales (auto simp: main_iter_def Let_def split: if_splits)
  from traced_loop.good_run [OF this _ _ assms(1), of "[]"] show ?thesis by (simp add: list_all_iff)
qed

lemma mainLoop_within:
  assumes "mainLoop ret tp (Some (th_controlSub, k, b)) inputs s = Inr (s', trace, True)"
  shows "worker {th_controlSub, th_dataSub} {} trace"
proof -
  from assms obtain opened acts closed where p: "mainLoop_open ret tp (Some (th_controlSub, k, b)) = Inr opened"
    "run_loop main_iter inputs s = Inr (s', acts, True)" "trace = opened @ acts @ closed"
    "stmts [closeSocket ret th_controlSub, closeSocket ret th_dataSub] = Inr closed"
    by (rule mainLoop_parts) simp
  have "worker {th_controlSub, th_dataSub} {} opened"
    using p(1) by (auto simp: mainLoop_open_def sender_defs bind_res_Inr_iff checked_iffs split: if_splits)
  moreover have "worker {th_controlSub, th_dataSub} {} acts" by (rule main_loop_worker [OF p(2)]) simp
  moreover have "worker {th_controlSub, th_dataSub} {} closed"
    using p(4) by (auto simp: closeSocket_def sender_defs bind_res_Inr_iff checked_iffs)
  ultimately show ?thesis by (simp add: p(3))
qed

lemma clientserver_loop_within:
  assumes "mainLoop ret tp None inputs s = Inr (s', trace, True)"
  shows "worker {th_dataSub} {th_controlPub, th_controlSub} trace"
proof -
  from assms obtain opened acts closed where p: "mainLoop_open ret tp None = Inr opened"
    "run_loop main_iter inputs s = Inr (s', acts, True)" "trace = opened @ acts @ closed"
    "stmts [closeSocket ret th_dataSub] = Inr closed"
    by (rule mainLoop_parts) simp
  have "worker {th_dataSub} {th_controlPub, th_controlSub} opened"
    using p(1) by (auto simp: mainLoop_open_def sender_defs bind_res_Inr_iff checked_iffs)
  moreover have "worker {th_dataSub} {th_controlPub, th_controlSub} acts" by (rule main_loop_worker [OF p(2)]) simp
  moreover have "worker {th_dataSub} {th_controlPub, th_controlSub} closed"
    using p(4) by (auto simp: closeSocket_def sender_defs bind_res_Inr_iff checked_iffs)
  ultimately show ?thesis by (simp add: p(3))
qed

lemma command_within:
  assumes "\<And>has m cs. send has m = Inr cs \<Longrightarrow> worker H S cs"
    and "run_loop (command_iter tp a send) goings st = Inr (st', acts, stop)"
  shows "worker H S acts"
proof -
  have "traced_loop (command_iter tp a send) (\<lambda>_. True) (\<lambda>h (_ :: shared \<times> bool). worker H S h)"
    using assms(1) by unfold_locales (auto simp: command_iter_def bind_res_Inr_iff split: prod.splits if_splits)
  from traced_loop.good_run [OF this _ _ assms(2), of "[]"] show ?thesis by (simp add: list_all_iff)
qed

context control_sender
begin

lemma command_track:
  assumes "run_loop (command_iter tp a send) goings (s, has) = Inr ((s', has'), acts, stop)"
  shows "track acts (if has then after else before) = Some (if has' then after else before)"
proof -
  let ?good = "\<lambda>h st. track h (if has then after else before) = Some (if snd st then after else before)"
  have "traced_loop (command_iter tp a send) (\<lambda>_. True) ?good"
    by unfold_locales
      (auto simp: command_iter_def bind_res_Inr_iff track_append split: prod.splits if_splits dest: opens keeps)
  from traced_loop.good_run [OF this _ _ assms, of "[]"] show ?thesis by (simp add: list_all_iff)
qed

end

text \<open>A sender that keeps its socket in the thread-local store.\<close>

definition tls_sender :: "(nat \<Rightarrow> sender) \<Rightarrow> bool" where
  "tls_sender send \<longleftrightarrow> (\<forall>t. \<exists>nowait. control_sender (send t) (Tls t) nowait [] [Tls t]
     \<and> (\<forall>has m cs. send t has m = Inr cs \<longrightarrow> worker {Tls t} {} cs))"

lemma tls_senders:
  "tls_sender (pairs_sendCommand ret tp)" "tls_sender (pubsub_sendCommand ret tp)" "tls_sender (pushpull_sendCommand ret tp)"
  unfolding tls_sender_def
  by (intro allI exI conjI impI, rule pairs.control_sender_axioms, erule senders_within)
    (intro allI exI conjI impI, rule pubsub.control_sender_axioms, erule senders_within,
      intro allI exI conjI impI, rule pushpull.control_sender_axioms, erule senders_within)

lemma cleanup_effect:
  "cleanupSocket ret t has = Inr cs \<Longrightarrow> worker {Tls t} {} cs \<and> track cs (if has then [Tls t] else []) = Some []"
  by (auto simp: cleanupSocket_def if_then_Inr_iff closeSocket_def checkInt_def checked_iffs split: if_splits)

lemma command_thread_effect:
  assumes "tls_sender send" "command_thread ret tp t (send t) goings s = Inr (cs, True)"
  shows "worker {Tls t} {} cs \<and> track cs [] = Some []"
proof -
  from assms(1) obtain nowait where snd: "control_sender (send t) (Tls t) nowait [] [Tls t]"
    and w: "\<And>has m cs. send t has m = Inr cs \<Longrightarrow> worker {Tls t} {} cs" unfolding tls_sender_def by blast
  from assms(2) obtain s' has acts closed where r: "run_loop (command_iter tp (Command_Thread t) (send t)) goings (s, False)
      = Inr ((s', has), acts, True)" "cleanupSocket ret t has = Inr closed" "cs = acts @ closed"
    by (auto simp: command_thread_def bind_res_Inr_iff if_then_Inr_iff)
  have "worker {Tls t} {} acts" by (rule command_within [OF _ r(1)]) (rule w)
  moreover have "track acts [] = Some (if has then [Tls t] else [])"
    using control_sender.command_track [OF snd r(1)] by simp
  ultimately show ?thesis using cleanup_effect [OF r(2)] r(3) by (simp add: track_append)
qed

lemma shutdown_thread_effect:
  assumes "tls_sender send" "shutdown_thread ret t (send t) = Inr cs"
  shows "worker {Tls t} {} cs \<and> track cs [] = Some []"
proof -
  from assms(1) obtain nowait where snd: "control_sender (send t) (Tls t) nowait [] [Tls t]"
    and w: "\<And>has m cs. send t has m = Inr cs \<Longrightarrow> worker {Tls t} {} cs" unfolding tls_sender_def by blast
  from assms(2) obtain acts closed where r: "send t False (sendControlMsg EXIT_COMMAND Null 0) = Inr acts"
    "cleanupSocket ret t True = Inr closed" "cs = acts @ closed"
    by (auto simp: shutdown_thread_def shutdownFunc_def bind_res_Inr_iff)
  from w [OF r(1)] control_sender.opens [OF snd r(1)] cleanup_effect [OF r(2)] r(3)
  show ?thesis by (simp add: track_append)
qed

subsection \<open>The main thread\<close>

definition main_during :: "thread_params \<Rightarrow> control_msg zcall list" where
  "main_during tp =
     [Thread_Create ''mainThread''] @ map Thread_Create (thread_names tp) @ map Thread_Join (thread_names tp)
     @ [Usleep (sleepDuration tp * 1000000),
        Thread_Create ''shutdownThread'', Thread_Join ''shutdownThread'', Thread_Join ''mainThread'']"

lemma threads_main_calls_eq:
  "threads_main_calls ret tp = Inr cs \<Longrightarrow> cs = [Ctx_New, Ctx_Set_Blocky False] @ main_during tp @ [Ctx_Term]"
  by (auto simp: threads_main_calls_def main_during_def sender_defs bind_res_Inr_iff checked_iffs)

definition clientserver_before :: "thread_params \<Rightarrow> control_msg zcall list" where
  "clientserver_before tp =
     [Ctx_New, Ctx_Set_Blocky False, Socket th_controlSub ZMQ_SERVER, Setsockopt th_controlSub (Linger (tp_linger tp)),
      Bind th_controlSub CONTROL_ENDPOINT, Socket th_controlPub ZMQ_CLIENT, Setsockopt th_controlPub (Linger (tp_linger tp)),
      Connect th_controlPub CONTROL_ENDPOINT] @ (if tp_pollFlag tp then [Poll [th_controlPub] 1] else [])"

definition clientserver_during :: "thread_params \<Rightarrow> control_msg zcall list" where
  "clientserver_during tp =
     [Thread_Create ''mainThread''] @ map Thread_Create (thread_names tp) @ map Thread_Join (thread_names tp)
     @ [Usleep (sleepDuration tp * 1000000), Send th_controlPub (sendControlMsg EXIT_COMMAND Null 0) False,
        Thread_Join ''mainThread'']"

lemma clientserver_main_calls_eq:
  "clientserver_main_calls ret tp = Inr cs \<Longrightarrow>
     cs = clientserver_before tp @ clientserver_during tp @ [Close th_controlPub, Close th_controlSub, Ctx_Term]"
  by (auto simp: clientserver_main_calls_def clientserver_before_def clientserver_during_def clientserver_sendCommand_def
      sender_defs bind_res_Inr_iff checked_iffs split: if_splits)

lemma fold_create: "fold live_step (map Thread_Create ns) live = rev ns @ live"
  by (induction ns arbitrary: live) auto

lemma fold_join: "fold live_step (map Thread_Join ns) live = filter (\<lambda>n. n \<notin> set ns) live"
proof (induction ns arbitrary: live)
  case (Cons n ns)
  have "filter (\<lambda>m. m \<notin> set ns) (removeAll n live) = filter (\<lambda>m. m \<notin> set (n # ns)) live"
    by (induction live) auto
  with Cons show ?case by simp
qed simp

lemma names_other: "n \<in> set (thread_names tp) \<Longrightarrow> n \<notin> {''main'', ''mainThread'', ''shutdownThread''}"
  by (auto simp: thread_names_def)

lemma during_live:
  "fold live_step (main_during tp) [''main''] = [''main'']"
  "fold live_step (clientserver_during tp) [''main''] = [''main'']"
proof -
  have "filter (\<lambda>n. n \<notin> set (thread_names tp)) (rev (thread_names tp)) = []"
    by (simp add: filter_empty_conv)
  moreover have "''main'' \<notin> set (thread_names tp)" "''mainThread'' \<notin> set (thread_names tp)"
    using names_other by blast+
  ultimately show "fold live_step (main_during tp) [''main''] = [''main'']"
    "fold live_step (clientserver_during tp) [''main''] = [''main'']"
    by (simp_all add: main_during_def clientserver_during_def fold_create fold_join)
qed

lemma main_during_tidy: "tidy {} [] (main_during tp)"
  by (rule tidy_shared) (auto simp: main_during_def within_def list_all_iff)

lemma clientserver_during_tidy: "tidy {} [th_controlPub, th_controlSub] (clientserver_during tp)"
  by (rule tidy_shared) (auto simp: clientserver_during_def within_def list_all_iff)

section \<open>The properties\<close>

definition owned :: "thread_params \<Rightarrow> string \<Rightarrow> handle set" where
  "owned tp n =
     (if n = ''main'' then {}
      else if n = ''mainThread'' then {th_controlSub, th_dataSub}
      else if n = ''shutdownThread'' then {Tls (nat (numThreads tp))}
      else {Tls i | i. i < nat (numThreads tp) \<and> n = ''commandThread'' @ dec_of_nat i})"

lemma owned_disjoint: "m \<noteq> n \<Longrightarrow> owned tp m \<inter> owned tp n = {}"
  by (auto simp: owned_def split: if_splits)

lemma tidyI: "worker H (set base) cs \<Longrightarrow> track cs base = Some base \<Longrightarrow> list_all threadless cs \<and> tidy H base cs"
  by (auto simp: worker_def tidy_def)

lemma complete_threads:
  assumes "tls_sender send" "complete_run ret tp send control w" "n \<noteq> ''main''"
  shows "list_all threadless (calls_by n w) \<and> tidy (owned tp n) [] (calls_by n w)"
proof -
  obtain k b where control: "control = (k, b)" by (cases control)
  from assms(2) have names: "fst ` set w \<subseteq> {''main'', ''mainThread'', ''shutdownThread''} \<union> set (thread_names tp)"
    by (simp add: complete_run_def)
  consider "n = ''mainThread''" | "n = ''shutdownThread''" | "n \<in> set (thread_names tp)" | "n \<notin> fst ` set w"
    using names assms(3) by blast
  then show ?thesis
  proof cases
    case 1
    with assms(2) control obtain inputs s s' where
      "mainLoop ret tp (Some (th_controlSub, k, b)) inputs s = Inr (s', calls_by n w, True)"
      by (auto simp: complete_run_def)
    with mainLoop_within mainLoop_track_own 1 show ?thesis by (intro tidyI) (auto simp: owned_def)
  next
    case 2
    with assms(2) have "shutdown_thread ret (nat (numThreads tp)) (send (nat (numThreads tp))) = Inr (calls_by n w)"
      by (simp add: complete_run_def)
    with shutdown_thread_effect [OF assms(1)] 2 show ?thesis by (intro tidyI) (auto simp: owned_def)
  next
    case 3
    then obtain i where i: "i < nat (numThreads tp)" "n = ''commandThread'' @ dec_of_nat i"
      by (auto simp: thread_names_def)
    with assms(2) obtain goings s where "command_thread ret tp i (send i) goings s = Inr (calls_by n w, True)"
      by (auto simp: complete_run_def)
    from command_thread_effect [OF assms(1) this] i names_other [OF 3] show ?thesis
      by (intro tidyI) (auto simp: owned_def elim: worker_mono)
  next
    case 4
    then have "calls_by n w = []" by (force simp: calls_by_def filter_empty_conv)
    then show ?thesis by simp
  qed
qed

lemma complete_run_order:
  assumes "tls_sender send" "complete_run ret tp send control w"
  shows "track (map snd w) [] = Some [] \<and> last w = (''main'', Ctx_Term) \<and> shares_only {ZMQ_SERVER, ZMQ_CLIENT} w"
proof -
  from assms(2) have adm: "admissible [''main''] w"
    and main: "calls_by ''main'' w = [Ctx_New, Ctx_Set_Blocky False] @ main_during tp @ [Ctx_Term]"
    by (auto simp: complete_run_def dest: threads_main_calls_eq)
  have "track (map snd w) [] = Some [] \<and> (\<exists>u. w = map (Pair ''main'') [Ctx_New, Ctx_Set_Blocky False] @ u
      @ map (Pair ''main'') [Ctx_Term] \<and> (\<forall>n. within (owned tp n) (set []) (calls_by n u)))"
    using complete_threads [OF assms] main_during_tidy [of tp]
    by (intro process_in_order [OF adm main]) (simp_all add: owned_disjoint during_live, simp_all add: main_during_def owned_def)
  then obtain u where t: "track (map snd w) [] = Some []" and w: "w = map (Pair ''main'') [Ctx_New, Ctx_Set_Blocky False] @ u
      @ map (Pair ''main'') [Ctx_Term]" and u: "\<And>n. within (owned tp n) (set []) (calls_by n u)" by blast
  have "shares_only {ZMQ_SERVER, ZMQ_CLIENT} w"
    by (rule process_shares [OF w u owned_disjoint]) auto
  with t show ?thesis by (simp add: w)
qed

text \<open>
  C14. The end of the context. In every complete run of pairs.cpp, pubsub.cpp or pushpull.cpp,
  however the calls of its threads interleave, every call is on a socket that is open, each
  socket is closed once, those of the command threads and of the shutdown thread by the
  destructor of their thread-local store, and the context is ended last, when no socket of
  any thread is left: \<^verbatim>\<open>zmq_ctx_destroy\<close> has nothing to wait for. No two threads use a socket
  that is not thread safe.
\<close>

theorem context_ended_last:
  assumes "complete_run ret tp send control w"
    and "(send, Some (th_controlSub, control)) \<in> {(pairs_sendCommand ret tp, pairs_control),
      (pubsub_sendCommand ret tp, pubsub_control), (pushpull_sendCommand ret tp, pushpull_control)}"
  shows "track (map snd w) [] = Some [] \<and> last w = (''main'', Ctx_Term) \<and> shares_only {ZMQ_SERVER, ZMQ_CLIENT} w"
  using complete_run_order [OF _ assms(1)] assms(2) tls_senders by auto

text \<open>A complete run of pushpull.cpp with one thread that sends one message.\<close>

definition small_run :: "control_msg tagged list" where
  "small_run =
    map (Pair ''main'') [Ctx_New, Ctx_Set_Blocky False, Thread_Create ''mainThread'', Thread_Create ''commandThread0'']
    @ map (Pair ''commandThread0'') [Socket (Tls 0) ZMQ_PUSH, Setsockopt (Tls 0) (Linger 30000)]
    @ map (Pair ''mainThread'') [Socket th_controlSub ZMQ_PULL, Setsockopt th_controlSub (Linger 30000)]
    @ map (Pair ''commandThread0'') [Connect (Tls 0) CONTROL_ENDPOINT]
    @ map (Pair ''mainThread'') [Bind th_controlSub CONTROL_ENDPOINT, Socket th_dataSub ZMQ_SUB,
        Setsockopt th_dataSub (Linger 30000), Bind th_dataSub DATA_ENDPOINT]
    @ map (Pair ''commandThread0'') [Tls_Set 0 (Tls 0), Send (Tls 0) (ping 0 1) False, Usleep 0, Close (Tls 0)]
    @ map (Pair ''main'') [Thread_Join ''commandThread0'', Usleep 1000000, Thread_Create ''shutdownThread'']
    @ map (Pair ''mainThread'') [Poll [th_controlSub, th_dataSub] (-1), Recv th_controlSub False,
        Poll [th_controlSub, th_dataSub] (-1)]
    @ map (Pair ''shutdownThread'') [Socket (Tls 1) ZMQ_PUSH, Setsockopt (Tls 1) (Linger 30000), Connect (Tls 1) CONTROL_ENDPOINT,
        Tls_Set 1 (Tls 1), Send (Tls 1) (sendControlMsg EXIT_COMMAND Null 0) False]
    @ map (Pair ''mainThread'') [Recv th_controlSub False, Close th_controlSub]
    @ map (Pair ''shutdownThread'') [Close (Tls 1)]
    @ map (Pair ''main'') [Thread_Join ''shutdownThread'']
    @ map (Pair ''mainThread'') [Close th_dataSub]
    @ map (Pair ''main'') [Thread_Join ''mainThread'', Ctx_Term]"

definition small_params :: thread_params where
  "small_params = thread_params_init\<lparr>numThreads := 1, numMsgs := 1\<rparr>"

lemma small_checked:
  "admissible [''main''] small_run \<and> list_all (\<lambda>e. fst e \<in> {''main'', ''mainThread'', ''shutdownThread'', ''commandThread0''}) small_run"
  "threads_main_calls (ret_success msg_bytes) small_params = Inr (calls_by ''main'' small_run)"
  "map_sum id (\<lambda>(s, r). r) (mainLoop (ret_success msg_bytes) small_params (Some (th_controlSub, ZMQ_PULL, False))
     [receive (ping 0 1), receive (sendControlMsg EXIT_COMMAND Null 0), receive (ping 0 1)] shared_init) = Inr (calls_by ''mainThread'' small_run, True)"
  "command_thread (ret_success msg_bytes) small_params 0 (pushpull_sendCommand (ret_success msg_bytes) small_params 0) [True]
     (init_counters 1 shared_init) = Inr (calls_by ''commandThread0'' small_run, True)"
  "shutdown_thread (ret_success msg_bytes) 1 (pushpull_sendCommand (ret_success msg_bytes) small_params 1)
     = Inr (calls_by ''shutdownThread'' small_run)"
  by code_simp+

lemma small_complete:
  "complete_run (ret_success msg_bytes) small_params (pushpull_sendCommand (ret_success msg_bytes) small_params)
     (ZMQ_PULL, False) small_run"
proof -
  have n: "nat (numThreads small_params) = 1" by (simp add: small_params_def)
  have zero: "dec_of_nat 0 = ''0''" by code_simp
  then have names: "thread_names small_params = [''commandThread0'']" by (simp add: thread_names_def n)
  obtain s where "mainLoop (ret_success msg_bytes) small_params (Some (th_controlSub, ZMQ_PULL, False))
     [receive (ping 0 1), receive (sendControlMsg EXIT_COMMAND Null 0), receive (ping 0 1)] shared_init
     = Inr (s, calls_by ''mainThread'' small_run, True)"
    using small_checked(3) by (auto simp: map_sum_def split: sum.splits)
  moreover have "fst ` set small_run \<subseteq> {''main'', ''mainThread'', ''shutdownThread''} \<union> set (thread_names small_params)"
    using small_checked(1) unfolding names list_all_iff by fastforce
  ultimately show ?thesis
    using small_checked by (auto simp: complete_run_def n names zero)
qed

theorem context_ended_last_witness:
  "track (map snd small_run) [] = Some [] \<and> last small_run = (''main'', Ctx_Term) \<and> shares_only {ZMQ_SERVER, ZMQ_CLIENT} small_run"
  by (rule context_ended_last [OF small_complete]) (simp add: pushpull_control_def)

subsection \<open>Client and server sockets\<close>

definition owned_data :: "string \<Rightarrow> handle set" where
  "owned_data n = (if n = ''mainThread'' then {th_dataSub} else {})"

lemma clientserver_command_worker:
  assumes "run_loop (command_iter tp a (clientserver_sendCommand ret tp i)) goings st = Inr (st', acts, stop)"
  shows "worker {} {th_controlPub, th_controlSub} acts"
  by (rule command_within [OF _ assms])
    (auto simp: clientserver_sendCommand_def sender_defs checked_iffs)

lemma clientserver_threads:
  assumes "clientserver_run ret tp w" "n \<noteq> ''main''"
  shows "list_all threadless (calls_by n w) \<and> tidy (owned_data n) [th_controlPub, th_controlSub] (calls_by n w)"
proof -
  let ?base = "[th_controlPub, th_controlSub]"
  from assms(1) have names: "fst ` set w \<subseteq> {''main'', ''mainThread''} \<union> set (thread_names tp)"
    by (simp add: clientserver_run_def)
  consider "n = ''mainThread''" | "n \<in> set (thread_names tp)" | "n \<notin> fst ` set w"
    using names assms(2) by blast
  then show ?thesis
  proof cases
    case 1
    with assms(1) obtain inputs s s' where "mainLoop ret tp None inputs s = Inr (s', calls_by n w, True)"
      by (auto simp: clientserver_run_def clientserver_mainLoop_def clientserver_control_def)
    with clientserver_loop_within clientserver_loop_track 1 show ?thesis
      by (intro tidyI) (auto simp: owned_data_def)
  next
    case 2
    then obtain i where i: "i < nat (numThreads tp)" "n = ''commandThread'' @ dec_of_nat i"
      by (auto simp: thread_names_def)
    with assms(1) obtain goings st st' where
      "run_loop (command_iter tp (Command_Thread i) (clientserver_sendCommand ret tp i)) goings st = Inr (st', calls_by n w, True)"
      by (auto simp: clientserver_run_def)
    from clientserver_command_worker [OF this] have "worker {} (set ?base) (calls_by n w)" by simp
    with tidy_shared [of ?base] names_other [OF 2] show ?thesis by (auto simp: worker_def owned_data_def)
  next
    case 3
    then have "calls_by n w = []" by (force simp: calls_by_def filter_empty_conv)
    then show ?thesis by simp
  qed
qed

text \<open>
  C15. Shared sockets. In every complete run of clientserver.cpp, however its threads interleave,
  the control sockets that all threads share are open whenever one of them uses them: they
  are made before the first thread starts and closed after the last has been joined, and the
  context is ended last with no socket left. The only sockets that two threads use are of
  the two types that libzmq makes thread safe.
\<close>

theorem shared_sockets_outlive_threads:
  assumes "clientserver_run ret tp w"
  shows "track (map snd w) [] = Some [] \<and> shares_only {ZMQ_SERVER, ZMQ_CLIENT} w
    \<and> (\<exists>u. w = map (Pair ''main'') (clientserver_before tp) @ u
          @ map (Pair ''main'') [Close th_controlPub, Close th_controlSub, Ctx_Term]
        \<and> (\<forall>n. within (owned_data n) {th_controlPub, th_controlSub} (calls_by n u)))"
proof -
  let ?base = "[th_controlPub, th_controlSub]" and ?after = "[Close th_controlPub, Close th_controlSub, Ctx_Term]"
  from assms have adm: "admissible [''main''] w"
    and main: "calls_by ''main'' w = clientserver_before tp @ clientserver_during tp @ ?after"
    by (auto simp: clientserver_run_def dest: clientserver_main_calls_eq)
  have closes: "track ?after hs = Some []" if "distinct hs" "set hs = set ?base" for hs
  proof -
    have "length hs = 2" using distinct_card [OF that(1)] that(2) by simp
    then obtain a b where "hs = [a, b]" by (auto simp: numeral_2_eq_2 length_Suc_conv)
    with that show ?thesis by (auto simp: doubleton_eq_iff)
  qed
  have disjoint: "m \<noteq> n \<Longrightarrow> owned_data m \<inter> owned_data n = {}" "owned_data n \<inter> set ?base = {}" for m n
    by (auto simp: owned_data_def)
  have opened: "track (clientserver_before tp) [] = Some ?base" by (simp add: clientserver_before_def)
  have parts: "list_all threadless (clientserver_before tp)" "list_all threadless ?after" "clientserver_during tp \<noteq> []"
    "tidy (owned_data ''main'') ?base (clientserver_during tp)"
    using clientserver_during_tidy by (simp_all add: clientserver_before_def clientserver_during_def owned_data_def)
  from process_in_order [OF adm main parts(1-3) during_live(2) clientserver_threads [OF assms] parts(4) opened closes disjoint]
  obtain u where t: "track (map snd w) [] = Some []" and w: "w = map (Pair ''main'') (clientserver_before tp) @ u
      @ map (Pair ''main'') ?after" and u: "\<And>n. within (owned_data n) (set ?base) (calls_by n u)" by blast
  have "shares_only {ZMQ_SERVER, ZMQ_CLIENT} w"
    by (rule process_shares [OF w u disjoint]) (auto simp: clientserver_before_def)
  with t w u show ?thesis by auto
qed

text \<open>A complete run with one thread that sends one message.\<close>

definition shared_run :: "control_msg tagged list" where
  "shared_run =
    map (Pair ''main'') (clientserver_before small_params @ [Thread_Create ''mainThread'', Thread_Create ''commandThread0''])
    @ map (Pair ''commandThread0'') [Send th_controlPub (ping 0 1) False]
    @ map (Pair ''mainThread'') [Socket th_dataSub ZMQ_SUB, Setsockopt th_dataSub (Linger 30000), Bind th_dataSub DATA_ENDPOINT,
        Poll [th_controlSub, th_dataSub] (-1)]
    @ map (Pair ''commandThread0'') [Usleep 0]
    @ map (Pair ''main'') [Thread_Join ''commandThread0'']
    @ map (Pair ''mainThread'') [Recv th_controlSub False, Poll [th_controlSub, th_dataSub] (-1)]
    @ map (Pair ''main'') [Usleep 1000000, Send th_controlPub (sendControlMsg EXIT_COMMAND Null 0) False]
    @ map (Pair ''mainThread'') [Recv th_controlSub False, Close th_dataSub]
    @ map (Pair ''main'') [Thread_Join ''mainThread'', Close th_controlPub, Close th_controlSub, Ctx_Term]"

lemma shared_checked:
  "admissible [''main''] shared_run \<and> list_all (\<lambda>e. fst e \<in> {''main'', ''mainThread'', ''commandThread0''}) shared_run"
  "clientserver_main_calls (ret_success msg_bytes) small_params = Inr (calls_by ''main'' shared_run)"
  "map_sum id (\<lambda>(s, r). r) (clientserver_mainLoop (ret_success msg_bytes) small_params
     [receive (ping 0 1), receive (sendControlMsg EXIT_COMMAND Null 0), receive (ping 0 1)] shared_init) = Inr (calls_by ''mainThread'' shared_run, True)"
  "map_sum id (\<lambda>(s, r). r) (run_loop (command_iter small_params (Command_Thread 0)
       (clientserver_sendCommand (ret_success msg_bytes) small_params 0)) [True] (init_counters 1 shared_init, False))
     = Inr (calls_by ''commandThread0'' shared_run, True)"
  by code_simp+

lemma shared_complete: "clientserver_run (ret_success msg_bytes) small_params shared_run"
proof -
  have n: "nat (numThreads small_params) = 1" by (simp add: small_params_def)
  have zero: "dec_of_nat 0 = ''0''" by code_simp
  then have names: "thread_names small_params = [''commandThread0'']" by (simp add: thread_names_def n)
  have unpack: "map_sum id (\<lambda>(s, r). r) x = Inr (cs, True) \<Longrightarrow> \<exists>s. x = Inr (s, cs, True)"
    for x :: "fault + 's \<times> 'c \<times> bool" and cs by (auto simp: map_sum_def split: sum.splits)
  have "fst ` set shared_run \<subseteq> {''main'', ''mainThread''} \<union> set (thread_names small_params)"
    using shared_checked(1) unfolding names list_all_iff by fastforce
  moreover have "\<exists>goings st st'. run_loop (command_iter small_params (Command_Thread i)
       (clientserver_sendCommand (ret_success msg_bytes) small_params i)) goings st
     = Inr (st', calls_by (''commandThread'' @ dec_of_nat i) shared_run, True)" if "i < 1" for i
  proof -
    from that have i: "i = 0" "''commandThread'' @ dec_of_nat 0 = ''commandThread0''" by (simp_all add: zero)
    from unpack [OF shared_checked(4)] show ?thesis unfolding i by blast
  qed
  ultimately show ?thesis
    using shared_checked(1,2) unpack [OF shared_checked(3)] unfolding clientserver_run_def n by blast
qed

theorem shared_sockets_outlive_threads_witness:
  "track (map snd shared_run) [] = Some [] \<and> shares_only {ZMQ_SERVER, ZMQ_CLIENT} shared_run"
  using shared_sockets_outlive_threads [OF shared_complete] by blast

end
