(* ===== verification/Peer_Process.thy ===== *)
theory Peer_Process
  imports Reconnect Monitor_Properties Interleaving
begin

section \<open>The peers with their monitor thread\<close>

text \<open>
  3186/peer.cpp and reconnect/peer.cpp run a second thread, \<open>monitorFunc\<close> of monitor.cpp, which
  connects a socket of its own to each monitored one and polls the control socket that the
  main thread has made for it. Here the calls of the two threads are put together; what each
  of them receives is an input.
\<close>

definition peer_process ::
  "string returns \<Rightarrow> params \<Rightarrow> self \<Rightarrow> int \<Rightarrow> tick list \<Rightarrow> mon_input list \<Rightarrow> string tagged list \<Rightarrow> bool" where
  "peer_process ret p s start ticks inputs w \<longleftrightarrow>
     admissible [''main''] w \<and> fst ` set w \<subseteq> {''main'', ''monitorFunc''}
     \<and> (\<exists>st. peer_main ret p s start ticks = Inr (st, calls_by ''main'' w, True))
     \<and> (socketMonitor p = 1 \<longrightarrow> (\<exists>acts. monitorFunc ret inputs = Inr (acts, True) \<and> calls_by ''monitorFunc'' w = calls_of acts))"

definition reconnect_process ::
  "string returns \<Rightarrow> build \<Rightarrow> reconnect_params \<Rightarrow> self \<Rightarrow> tick list \<Rightarrow> mon_input list \<Rightarrow> string tagged list \<Rightarrow> bool" where
  "reconnect_process ret b rp s ticks inputs w \<longleftrightarrow>
     admissible [''main''] w \<and> fst ` set w \<subseteq> {''main'', ''monitorFunc''}
     \<and> (\<exists>st. reconnect_main ret b rp s ticks = Inr (st, calls_by ''main'' w, True))
     \<and> (\<exists>acts. monitorFunc ret inputs = Inr (acts, True) \<and> calls_by ''monitorFunc'' w = calls_of acts)"

section \<open>What each thread uses\<close>

abbreviation own_sockets :: "handle set" where "own_sockets \<equiv> {dataPub, proxyPub, proxySub, dataSub}"
abbreviation monitor_base :: "handle list" where "monitor_base \<equiv> [monitorPub, monitorSub]"

subsection \<open>The monitor thread\<close>

lemma monitor_socket_calls:
  "monitor_socket i hn = Inr acts \<Longrightarrow> fst hn \<in> S \<Longrightarrow> list_all (\<lambda>c. neutral c \<and> threadless c \<and> set (uses c) \<subseteq> S) (calls_of acts)"
  by (auto simp: monitor_socket_def bind_res_Inr_iff split: prod.splits if_splits)

lemma monitor_iter_calls:
  assumes "monitor_iter i s = Inr (s', acts, stop)"
  shows "list_all (\<lambda>c. neutral c \<and> threadless c \<and> set (uses c) \<subseteq> set (map fst monitored) \<union> {monitorSub}) (calls_of acts)"
proof -
  let ?S = "set (map fst monitored) \<union> {monitorSub}"
  let ?ok = "\<lambda>acts. list_all (\<lambda>c. neutral c \<and> threadless c \<and> set (uses c) \<subseteq> ?S) (calls_of acts)"
  have all: "stmts (map (monitor_socket i) hns) = Inr as \<Longrightarrow> set hns \<subseteq> set monitored \<Longrightarrow> ?ok as" for hns as
  proof (induction hns arbitrary: as)
    case (Cons hn hns)
    then obtain bs cs where "monitor_socket i hn = Inr bs" "stmts (map (monitor_socket i) hns) = Inr cs" "as = bs @ cs"
      by (auto simp: bind_res_Inr_iff)
    moreover have "fst hn \<in> ?S" using Cons.prems(2) by auto
    ultimately show ?case using monitor_socket_calls Cons by auto
  qed simp
  from assms obtain as where "stmts (map (monitor_socket i) monitored) = Inr as"
    "acts = Mon_Call (Poll (map fst monitored @ [monitorSub]) (-1)) # as"
    by (auto simp: monitor_iter_def bind_res_Inr_iff)
  with all [of monitored as] show ?thesis by auto
qed

lemma monitor_loop_calls:
  assumes "run_loop monitor_iter inputs s = Inr (s', acts, stop)"
  shows "list_all (\<lambda>c. neutral c \<and> threadless c \<and> set (uses c) \<subseteq> set (map fst monitored) \<union> {monitorSub}) (calls_of acts)"
proof -
  have "traced_loop monitor_iter (\<lambda>_. True) (\<lambda>h (_ :: unit).
      list_all (\<lambda>c. neutral c \<and> threadless c \<and> set (uses c) \<subseteq> set (map fst monitored) \<union> {monitorSub}) (calls_of h))"
    by unfold_locales (auto dest: monitor_iter_calls)
  from traced_loop.good_run [OF this _ _ assms, of "[]"] show ?thesis by (simp add: list_all_iff)
qed

lemma monitor_thread_tidy:
  assumes "monitorFunc ret inputs = Inr (acts, True)"
  shows "list_all threadless (calls_of acts) \<and> tidy (set (map fst monitored)) monitor_base (calls_of acts)"
proof -
  let ?H = "set (map fst monitored)" and ?hs = "rev (map fst monitored) @ monitor_base"
  from assms obtain opened loop closed s where p: "monitor_open ret = Inr opened"
    "run_loop monitor_iter inputs () = Inr (s, loop, True)" "monitor_close ret = Inr closed"
    "calls_of acts = opened @ calls_of loop @ closed"
    by (auto simp: monitorFunc_def bind_res_Inr_iff split: if_splits)
  have o: "worker ?H (set monitor_base) opened \<and> track opened monitor_base = Some ?hs"
    using p(1) by (auto simp: monitor_open_def monitored_def bind_res_Inr_iff checked_iffs)
  have c: "worker ?H (set monitor_base) closed \<and> track closed ?hs = Some monitor_base"
    using p(3) by (auto simp: monitor_close_def monitored_def bind_res_Inr_iff checked_iffs)
  note l = monitor_loop_calls [OF p(2)]
  have "track (calls_of loop) ?hs = Some ?hs"
    using l by (intro track_neutral) (auto simp: list_all_iff)
  moreover have "within ?H (set monitor_base) (calls_of loop)"
    using l by (intro within_neutral) (auto simp: list_all_iff)
  ultimately show ?thesis using o c l
    by (auto simp: p(4) tidy_def worker_def track_append list_all_iff)
qed

subsection \<open>The main thread\<close>

definition own_call :: "string zcall \<Rightarrow> bool" where
  "own_call c \<longleftrightarrow> neutral c \<and> threadless c \<and> set (uses c) \<subseteq> own_sockets"

lemma own_call_simps [simp]:
  "own_call (Poll [proxySub, dataSub] n)" "own_call (Recv proxySub nw)" "own_call (Recv dataSub nw)"
  "own_call (Connect proxyPub e)" "own_call (Connect dataSub e)" "own_call (Disconnect dataSub e)"
  "own_call (Send proxyPub bs nw)" "own_call (Send dataPub bs nw)" "own_call (Getsockopt dataPub g)"
  "own_call (Setsockopt proxyPub opt)"
  by (simp_all add: own_call_def)

lemma send_calls: "if_then c (sendConnectMsg mem proxyPub cmd u e) = Inr cs \<Longrightarrow> list_all own_call cs"
  by (auto simp: if_then_def sendConnectMsg_def bind_res_Inr_iff split: if_splits)

lemma send_calls': "sendConnectMsg mem proxyPub cmd u e = Inr cs \<Longrightarrow> list_all own_call cs"
  using send_calls [of True] by (simp add: if_then_def)

lemma handle_msg_calls: "handle_msg p s mem m st = Inr (st', acts, stop) \<Longrightarrow> list_all own_call acts"
  by (auto simp: handle_msg_def handle_welcome_def handle_connect_def handle_disconnect_def kickSocket_def Let_def
      bind_res_Inr_iff dest: send_calls send_calls' split: if_splits)

lemma handle_proxy_calls: "handle_proxy p s t st = Inr (st', acts, stop) \<Longrightarrow> list_all own_call acts"
  by (auto simp: handle_proxy_def bind_res_Inr_iff dest!: handle_msg_calls split: if_splits prod.splits)

lemma peer_iter_calls: "peer_iter p s end t st = Inr (st', acts, stop) \<Longrightarrow> list_all own_call acts"
  by (auto simp: peer_iter_def kickSocket2_def bind_res_Inr_iff dest!: send_calls send_calls' handle_proxy_calls
      split: if_splits prod.splits)

lemma reconnect_msg_own: "reconnect_msg b rp s mem m st = Inr (st', acts, stop) \<Longrightarrow> list_all own_call acts"
  by (auto simp: reconnect_msg_def bind_res_Inr_iff dest!: send_calls send_calls' split: if_splits)

lemma reconnect_iter_own: "reconnect_iter b rp s t st = Inr (st', acts, stop) \<Longrightarrow> list_all own_call acts"
  by (auto simp: reconnect_iter_def bind_res_Inr_iff dest!: send_calls send_calls' reconnect_msg_own
      split: if_splits prod.splits)

lemma own_loop:
  assumes "\<And>t st st' acts stop. it t st = Inr (st', acts, stop) \<Longrightarrow> list_all own_call acts"
    and "run_loop it ts st = Inr (st', acts, stop)"
  shows "list_all own_call acts"
proof -
  have "traced_loop it (\<lambda>_. True) (\<lambda>h _. list_all own_call h)"
    by unfold_locales (auto dest: assms(1))
  from traced_loop.good_run [OF this _ _ assms(2), of "[]"] show ?thesis by (simp add: list_all_iff)
qed

text \<open>
  The two programs have the same shape: the main thread makes the control sockets and starts
  the monitor, works with its own sockets, and stops the monitor before it closes them.
\<close>

definition main_with_monitor :: "string zcall list \<Rightarrow> string zcall list \<Rightarrow> string zcall list" where
  "main_with_monitor work rest =
     [Ctx_New, Socket monitorSub ZMQ_SERVER, Bind monitorSub ''inproc://monitor'',
      Socket monitorPub ZMQ_CLIENT, Connect monitorPub ''inproc://monitor'']
     @ (Thread_Create ''monitorFunc'' # work @ [Send monitorPub ''X'' False, Thread_Join ''monitorFunc''])
     @ Close monitorPub # Close monitorSub # rest @ [Ctx_Shutdown, Ctx_Term]"

lemma monitor_run_in_order:
  assumes "admissible [''main''] w" "fst ` set w \<subseteq> {''main'', ''monitorFunc''}"
    and main: "calls_by ''main'' w = main_with_monitor work rest"
    and work: "list_all threadless work" "within own_sockets {} work" "track work [] = Some []"
    and rest: "list_all (\<lambda>c. neutral c \<and> threadless c \<and> mentions c = []) rest"
    and thread: "monitorFunc ret inputs = Inr (acts, True)" "calls_by ''monitorFunc'' w = calls_of acts"
  shows "track (map snd w) [] = Some [] \<and> last w = (''main'', Ctx_Term) \<and> shares_only {ZMQ_SERVER, ZMQ_CLIENT} w"
proof -
  let ?before = "[Ctx_New, Socket monitorSub ZMQ_SERVER, Bind monitorSub ''inproc://monitor'',
      Socket monitorPub ZMQ_CLIENT, Connect monitorPub ''inproc://monitor'']"
  let ?during = "Thread_Create ''monitorFunc'' # work @ [Send monitorPub ''X'' False, Thread_Join ''monitorFunc'']"
  let ?after = "Close monitorPub # Close monitorSub # rest @ [Ctx_Shutdown, Ctx_Term]"
  let ?own = "\<lambda>n. if n = ''main'' then own_sockets else if n = ''monitorFunc'' then set (map fst monitored) else {}"
  have "track work monitor_base = Some monitor_base"
    using track_frame [OF work(2) _ work(3), of monitor_base] by simp
  moreover have "within own_sockets (set monitor_base) work" using work(2) by (rule within_mono) auto
  ultimately have during: "tidy (?own ''main'') monitor_base ?during"
    by (simp add: tidy_def track_append)
  have "fold live_step work live = live" for live
    using work(1) by (induction work) (auto simp: threadless_def)
  then have live: "fold live_step ?during [''main''] = [''main'']" by simp
  have threads: "list_all threadless (calls_by n w) \<and> tidy (?own n) monitor_base (calls_by n w)" if "n \<noteq> ''main''" for n
  proof (cases "n = ''monitorFunc''")
    case True
    with monitor_thread_tidy [OF thread(1)] thread(2) show ?thesis by simp
  next
    case False
    with that assms(2) have "calls_by n w = []" by (force simp: calls_by_def filter_empty_conv)
    then show ?thesis by simp
  qed
  have rest': "track (rest @ cs) hs = track cs hs" for cs hs
    using rest by (induction rest) (auto simp: track_call_neutral mentions_neutral)
  have closed: "track ?after hs = Some []" if "distinct hs" "set hs = set monitor_base" for hs
  proof -
    have "length hs = 2" using distinct_card [OF that(1)] that(2) by simp
    then obtain a b where "hs = [a, b]" by (auto simp: numeral_2_eq_2 length_Suc_conv)
    with that show ?thesis by (auto simp: doubleton_eq_iff rest')
  qed
  have disjoint: "m \<noteq> n \<Longrightarrow> ?own m \<inter> ?own n = {}" "?own n \<inter> set monitor_base = {}" for m n
    by (auto simp: monitored_def)
  have alone: "list_all threadless ?before" "list_all threadless ?after"
    using rest by (auto simp: list_all_iff)
  from process_in_order [OF assms(1) main [unfolded main_with_monitor_def] alone _ live threads during _ closed disjoint]
  obtain u where t: "track (map snd w) [] = Some []" and w: "w = map (Pair ''main'') ?before @ u @ map (Pair ''main'') ?after"
    and u: "\<And>n. within (?own n) (set monitor_base) (calls_by n u)" by auto
  have "shares_only {ZMQ_SERVER, ZMQ_CLIENT} w"
    by (rule process_shares [OF w u disjoint]) (use rest in \<open>auto simp: list_all_iff\<close>)
  with t show ?thesis by (simp add: w)
qed

lemma own_calls_track:
  assumes "list_all own_call acts" "own_sockets \<subseteq> set hs"
  shows "track acts hs = Some hs" "within own_sockets {} acts" "list_all threadless acts"
proof -
  show "track acts hs = Some hs" using assms by (intro track_neutral) (auto simp: list_all_iff own_call_def)
  show "within own_sockets {} acts" using assms(1) by (intro within_neutral) (auto simp: list_all_iff own_call_def)
  show "list_all threadless acts" using assms(1) by (auto simp: list_all_iff own_call_def)
qed

definition works :: "string zcall list \<Rightarrow> string zcall list \<Rightarrow> bool" where
  "works work rest \<longleftrightarrow> list_all threadless work \<and> within own_sockets {} work \<and> track work [] = Some []
     \<and> list_all (\<lambda>c. neutral c \<and> threadless c \<and> mentions c = []) rest"

lemma worksI:
  assumes "worker own_sockets {} opened" "track opened [] = Some hs" "own_sockets \<subseteq> set hs" "list_all own_call acts"
    and "worker own_sockets {} closed" "track closed hs = Some []"
    and "list_all (\<lambda>c. neutral c \<and> threadless c \<and> mentions c = []) rest"
  shows "works (opened @ acts @ closed) rest"
  using assms own_calls_track [OF assms(4,3)] by (simp add: works_def worker_def track_append)

lemma open_socket_effect:
  "worker own_sockets {} (open_socket p h k a) \<longleftrightarrow> h \<in> own_sockets"
  "track (open_socket p h k a @ cs) hs = (if h \<in> set hs then None else track cs (h # hs))"
  by (auto simp: open_socket_def)

lemma close_socket_effect:
  assumes "close_socket ret p h = Inr cs" "h \<in> own_sockets"
  shows "worker own_sockets {} cs \<and> (h \<in> set hs \<longrightarrow> track (cs @ ds) hs = track ds (remove1 h hs))"
  using assms by (auto simp: close_socket_def bind_res_Inr_iff checked_iffs split: if_splits)

lemma peer_main_shape:
  assumes "peer_main ret p s start ts = Inr (st, trace, True)"
  shows "\<exists>work rest. works work rest
    \<and> trace = (if socketMonitor p = 1 then main_with_monitor work rest else Ctx_New # work @ rest @ [Ctx_Shutdown, Ctx_Term])"
proof -
  let ?hs = "[dataSub, proxySub, proxyPub, dataPub]"
  obtain begun acts shut where parts: "peer_setup ret p = Inr begun" "peer_shutdown ret p = Inr shut"
    "run_loop (peer_iter p s (endTime p start)) ts no_peers = Inr (st, acts, True)" "trace = begun @ acts @ shut"
    using assms by (rule peer_main_parts)
  define opened where "opened = open_socket p dataPub ZMQ_PUB ''inproc://dataPub''
           @ [Bind dataPub (''tcp://127.0.0.1:'' @ dec_of (port p)), Getsockopt dataPub Last_Endpoint]
           @ open_socket p proxyPub ZMQ_PUB ''inproc://proxyPub''
           @ open_socket p proxySub ZMQ_SUB ''inproc://proxySub''
           @ [Setsockopt proxySub (Subscribe []), Connect proxySub ''tcp://127.0.0.1:5555'']
           @ open_socket p dataSub ZMQ_SUB ''inproc://dataSub''
           @ (if disableReconnect p = 1 then [Setsockopt dataSub (Reconnect_Ivl (-1))] else [])
           @ [Setsockopt dataSub (Subscribe [])]"
  define rest :: "string zcall list" where "rest = (if sleepAtExit p > 0 then [Usleep (sleepAtExit p * ONE_MILLION)] else [])"
  obtain sm where sm: "if_then (socketMonitor p = 1) (startMonitor ret) = Inr sm" "begun = Ctx_New # sm @ opened"
    using parts(1) by (auto simp: peer_setup_def opened_def bind_res_Inr_iff)
  obtain c1 c2 c3 c4 sp where cl: "close_socket ret p dataPub = Inr c1" "close_socket ret p dataSub = Inr c2"
    "close_socket ret p proxyPub = Inr c3" "close_socket ret p proxySub = Inr c4"
    and sp: "if_then (socketMonitor p = 1) (stopMonitor ret) = Inr sp"
    and shut: "shut = c1 @ c2 @ c3 @ c4 @ sp @ rest @ [Ctx_Shutdown, Ctx_Term]"
    using parts(2) by (auto simp: peer_shutdown_def rest_def bind_res_Inr_iff CALL_INT_FUNC_def simp del: if_split)
  have o: "worker own_sockets {} opened" "track opened [] = Some ?hs"
    by (simp_all add: opened_def open_socket_effect)
  have c: "worker own_sockets {} (c1 @ c2 @ c3 @ c4)" "track (c1 @ c2 @ c3 @ c4) ?hs = Some []"
    using close_socket_effect [OF cl(1)] close_socket_effect [OF cl(2)] close_socket_effect [OF cl(3)]
      close_socket_effect [OF cl(4), where ds = "[]"] by simp_all
  have acts: "list_all own_call acts" by (rule own_loop [OF _ parts(3)]) (rule peer_iter_calls)
  have "works (opened @ acts @ c1 @ c2 @ c3 @ c4) rest"
    by (rule worksI [OF o _ acts c]) (auto simp: rest_def)
  moreover have "trace = (if socketMonitor p = 1 then main_with_monitor (opened @ acts @ c1 @ c2 @ c3 @ c4) rest
      else Ctx_New # (opened @ acts @ c1 @ c2 @ c3 @ c4) @ rest @ [Ctx_Shutdown, Ctx_Term])"
    using sm sp by (auto simp: parts(4) shut main_with_monitor_def if_then_def startMonitor_def stopMonitor_def
        bind_res_Inr_iff checked_iffs)
  ultimately show ?thesis by blast
qed

lemma reconnect_main_shape:
  assumes "reconnect_main ret b rp s ts = Inr (st, trace, True)"
  shows "\<exists>work. works work [] \<and> trace = main_with_monitor work []"
proof -
  let ?hs = "[dataSub, proxySub, proxyPub, dataPub]"
  from assms obtain begun acts shut where parts: "reconnect_setup ret b rp = Inr begun"
    "run_loop (reconnect_iter b rp s) ts \<lparr>peers = []\<rparr> = Inr (st, acts, True)"
    "reconnect_shutdown ret = Inr shut" "trace = begun @ acts @ shut"
    by (auto simp: reconnect_main_def bind_res_Inr_iff split: if_splits)
  obtain sm opened where sm: "startMonitor ret = Inr sm" "begun = Ctx_New # sm @ opened"
    and o: "worker own_sockets {} opened" "track opened [] = Some ?hs"
    using parts(1) by (auto simp: reconnect_setup_def bind_res_Inr_iff sprintf_buf_def split: if_splits)
  obtain closed sp where sp: "stopMonitor ret = Inr sp" "shut = closed @ sp @ [Ctx_Shutdown, Ctx_Term]"
    and c: "worker own_sockets {} closed" "track closed ?hs = Some []"
    using parts(3) by (auto simp: reconnect_shutdown_def bind_res_Inr_iff checked_iffs)
  have acts: "list_all own_call acts" by (rule own_loop [OF _ parts(2)]) (rule reconnect_iter_own)
  have "works (opened @ acts @ closed) []" by (rule worksI [OF o _ acts c]) simp_all
  moreover have "trace = main_with_monitor (opened @ acts @ closed) []"
    using sm sp by (auto simp: parts(4) main_with_monitor_def startMonitor_def stopMonitor_def bind_res_Inr_iff checked_iffs)
  ultimately show ?thesis by blast
qed

section \<open>The property\<close>

text \<open>
  C16. The peers with their monitor. In every complete run of 3186/peer.cpp and of
  reconnect/peer.cpp, however the calls of the main thread and of the monitor thread interleave
  and whatever the options, each call is on an open socket and each socket is closed once: the
  control socket is there for as long as the monitor thread polls it, the thread's own sockets
  are gone before the context is ended, which is the last call of all, and the two threads
  share only sockets of the types that libzmq makes thread safe.
\<close>

theorem peer_threads_in_order:
  assumes "peer_process ret p s start ts inputs w \<or> reconnect_process ret b rp s ts inputs w"
  shows "track (map snd w) [] = Some [] \<and> last w = (''main'', Ctx_Term) \<and> shares_only {ZMQ_SERVER, ZMQ_CLIENT} w"
  using assms
proof
  assume l: "peer_process ret p s start ts inputs w"
  then have adm: "admissible [''main''] w" "fst ` set w \<subseteq> {''main'', ''monitorFunc''}" by (simp_all add: peer_process_def)
  from l obtain work rest where wr: "works work rest" and main: "calls_by ''main'' w
      = (if socketMonitor p = 1 then main_with_monitor work rest else Ctx_New # work @ rest @ [Ctx_Shutdown, Ctx_Term])"
    by (auto simp: peer_process_def dest!: peer_main_shape)
  show ?thesis
  proof (cases "socketMonitor p = 1")
    case True
    with l obtain acts where "monitorFunc ret inputs = Inr (acts, True)" "calls_by ''monitorFunc'' w = calls_of acts"
      by (auto simp: peer_process_def)
    with monitor_run_in_order [OF adm, of work rest ret inputs acts] wr main True show ?thesis by (simp add: works_def)
  next
    case False
    let ?cs = "Ctx_New # work @ rest @ [Ctx_Shutdown, Ctx_Term]"
    have "list_all threadless ?cs" using wr by (auto simp: works_def list_all_iff)
    with main_alone [OF adm(1), of ?cs "[]"] main False obtain w' where
      "w = map (Pair ''main'') ?cs @ w'" "admissible [''main''] w'" "calls_by ''main'' w' = []" by auto
    then have w: "w = map (Pair ''main'') ?cs" by (cases w') auto
    have "track (rest @ cs) hs = track cs hs" for cs hs
      using wr by (simp add: works_def) (induction rest, auto simp: track_call_neutral mentions_neutral)
    with wr show ?thesis by (auto simp: w works_def track_append o_def shares_only_def)
  qed
next
  assume r: "reconnect_process ret b rp s ts inputs w"
  then have adm: "admissible [''main''] w" "fst ` set w \<subseteq> {''main'', ''monitorFunc''}" by (simp_all add: reconnect_process_def)
  from r obtain work where "works work []" "calls_by ''main'' w = main_with_monitor work []"
    by (auto simp: reconnect_process_def dest!: reconnect_main_shape)
  moreover from r obtain acts where "monitorFunc ret inputs = Inr (acts, True)" "calls_by ''monitorFunc'' w = calls_of acts"
    by (auto simp: reconnect_process_def)
  ultimately show ?thesis using monitor_run_in_order [OF adm, of work "[]" ret inputs acts] by (simp add: works_def)
qed

text \<open>
  A run of the monitored peer: it hears itself and its own disconnect; the monitor thread
  connects its sockets while the main thread works, logs an event, and ends in time.
\<close>

definition demo_params :: params where
  "demo_params = params_init\<lparr>socketMonitor := 1\<rparr>"

definition demo_ticks :: "tick list" where
  "demo_ticks = [tick_of (msg_a CHR ''C''), tick_of (msg_a CHR ''D'')]"

definition demo_rounds :: "mon_input list" where
  "demo_rounds = [round_of [(''dataPub'', demo_event)] False, round_of [] True]"

definition demo_main :: "string zcall list" where
  "demo_main = (case peer_main (ret_success length) demo_params peer_a 0 demo_ticks of Inl f \<Rightarrow> [] | Inr (st, cs, stop) \<Rightarrow> cs)"

definition demo_thread :: "string zcall list" where
  "demo_thread = (case monitorFunc (ret_success length) demo_rounds of Inl f \<Rightarrow> [] | Inr (acts, stop) \<Rightarrow> calls_of acts)"

definition demo_process :: "string tagged list" where
  "demo_process =
     map (Pair ''main'') (take 10 demo_main) @ map (Pair ''monitorFunc'') (take 8 demo_thread)
     @ map (Pair ''main'') (take 10 (drop 10 demo_main)) @ map (Pair ''monitorFunc'') (take 3 (drop 8 demo_thread))
     @ map (Pair ''main'') (take 15 (drop 20 demo_main)) @ map (Pair ''monitorFunc'') (drop 11 demo_thread)
     @ map (Pair ''main'') (drop 35 demo_main)"

lemma take_drop_step: "k = n + m \<Longrightarrow> take m (drop n xs) @ drop k xs = drop n xs"
  by (metis add.commute append_take_drop_id drop_drop)

lemma demo_evaluated:
  "(case peer_main (ret_success length) demo_params peer_a 0 demo_ticks of Inl f \<Rightarrow> False | Inr (st, cs, stop) \<Rightarrow> stop)"
  "(case monitorFunc (ret_success length) demo_rounds of Inl f \<Rightarrow> False | Inr (acts, stop) \<Rightarrow> stop)"
  "admissible [''main''] demo_process"
  by code_simp+

theorem peer_threads_in_order_witness:
  "track (map snd demo_process) [] = Some [] \<and> shares_only {ZMQ_SERVER, ZMQ_CLIENT} demo_process"
proof -
  have "calls_by ''main'' demo_process = demo_main" "calls_by ''monitorFunc'' demo_process = demo_thread"
    by (simp_all add: demo_process_def) (simp_all add: take_drop_step)
  moreover have "\<exists>st. peer_main (ret_success length) demo_params peer_a 0 demo_ticks = Inr (st, demo_main, True)"
    using demo_evaluated(1) by (auto simp: demo_main_def split: sum.splits)
  moreover have "\<exists>acts. monitorFunc (ret_success length) demo_rounds = Inr (acts, True) \<and> demo_thread = calls_of acts"
    using demo_evaluated(2) by (auto simp: demo_thread_def split: sum.splits)
  moreover have "fst ` set demo_process \<subseteq> {''main'', ''monitorFunc''}"
    by (auto simp: demo_process_def)
  ultimately have "peer_process (ret_success length) demo_params peer_a 0 demo_ticks demo_rounds demo_process"
    using demo_evaluated(3) by (simp add: peer_process_def)
  with peer_threads_in_order show ?thesis by blast
qed

end
