(* ===== verification/Socket_Base.thy ===== *)
theory Socket_Base
  imports Std_Map C_Strings Zmq_Calls
begin

section \<open>libzmq's socket_base.cpp: the state of a socket and its addresses\<close>

text \<open>
  libzmq/4.2.5/mods/src/socket_base.cpp is the one file of libzmq the repository has, with a
  change of its own in \<^verbatim>\<open>term_endpoint\<close>. The rest of libzmq is not there: what the file calls in
  it is an entry of the socket's log, and what such a call returns is an argument of the
  model. This theory holds the state, the making of a socket, and the checks of addresses;
  Socket_Monitor, Socket_Pipes, Socket_Commands, Socket_Connect and Socket_Transfer follow
  the rest of the file.
\<close>

datatype errno =
    EINVAL | ETERM | EPROTONOSUPPORT | ENOCOMPATPROTO | EMTHREAD | ENOENT | EADDRINUSE
  | EAGAIN | EINTR | EFAULT | ENOTSUP | ENOTSOCK | Errno nat

record options =
  otype :: kind
  sndhwm :: int
  rcvhwm :: int
  conflate :: bool
  immediate :: int
  sndtimeo :: int
  rcvtimeo :: int
  recv_routing_id :: bool
  routing_id :: "byte list"
  opt_connected :: bool
  opt_linger :: int
  ipv6 :: bool

text \<open>
  The log has, in order, what the socket does to the objects around it and what its pipes
  report to it. Pipes, and the sessions and listeners it owns, are numbers. \<open>Mon_Send\<close> is
  a message of the given frames on the monitor socket.
\<close>

datatype effect =
    Xattach_Pipe nat bool
  | Xread_Activated nat
  | Xwrite_Activated nat
  | Hiccuped_By nat
  | Xhiccuped nat
  | Xpipe_Terminated nat
  | Pipe_Terminate nat bool
  | Pipe_Set_Hwms nat int int
  | Pipe_Send_Hwms nat int int
  | Pipe_Write_Id nat "byte list"
  | Pipepair nat nat int int bool
  | Hwms_Boost nat int int
  | Session_Attach nat nat
  | Send_Bind nat nat
  | Register_Endpoint string
  | Unregister_Endpoint string
  | Unregister_Endpoints
  | Connect_Pending string
  | Pend_Connection string nat nat
  | Launch_Child nat
  | Term_Child nat
  | Register_Term_Acks nat
  | Unregister_Term_Ack
  | Own_Terminate
  | Own_Process_Term int
  | Own_Process_Destroy
  | Mon_Open string
  | Mon_Send "byte list list"
  | Mon_Close
  | Mailbox_Read
  | Signaler_Added nat
  | Signaler_Removed nat
  | Send_Stop
  | Signalers_Cleared
  | Reaper_Signaled
  | Reaper_Unsignaled
  | Send_Reap
  | Send_Reaped
  | Poller_Add
  | Poller_Remove
  | Destroy_Socket
  | Xsend bool
  | Xrecv

text \<open>
  A \<open>config\<close> holds what the file takes from the rest of libzmq: constants of the build,
  the transports compiled in, which virtual functions the socket type overrides, the
  default argument of \<^verbatim>\<open>stop_monitor\<close>, how \<^verbatim>\<open>array_t\<close> takes out an entry, and whether the
  object is terminating after what it has done so far. The code relies on \<open>erases\<close>: an
  erased pipe is gone and the others stay.
\<close>

record config =
  max_command_delay :: u64
  inbound_poll_rate :: nat
  have_ipc :: bool
  have_openpgm :: bool
  have_tipc :: bool
  have_norm :: bool
  have_vmci :: bool
  thread_safe_kind :: "kind \<Rightarrow> bool"
  hears_reads :: bool
  hears_writes :: bool
  hears_hiccups :: bool
  stopped_default :: bool
  array_erase :: "nat \<Rightarrow> nat list \<Rightarrow> nat list"
  is_terminating :: "effect list \<Rightarrow> bool"

definition erases :: "config \<Rightarrow> bool" where
  "erases cfg \<longleftrightarrow> (\<forall>p ps. distinct ps \<longrightarrow> distinct (array_erase cfg p ps) \<and> set (array_erase cfg p ps) = set ps - {p})"

record socket =
  tag :: u32
  ctx_terminated :: bool
  destroyed :: bool
  last_tsc :: u64
  ticks :: nat
  rcvmore :: bool
  mon_socket :: bool
  mon_events :: int
  thread_safe :: bool
  last_endpoint :: string
  pipes :: "nat list"
  endpoints :: "(string \<times> nat \<times> nat option) list"
  inprocs :: "(string \<times> nat) list"
  opts :: options
  log :: "effect list"

definition emits :: "effect list \<Rightarrow> socket \<Rightarrow> socket" where
  "emits es s = s\<lparr>log := log s @ es\<rparr>"

abbreviation emit :: "effect \<Rightarrow> socket \<Rightarrow> socket" where
  "emit e \<equiv> emits [e]"

lemma emits_simps [simp]:
  "emits [] s = s" "emits es (emits fs s) = emits (fs @ es) s"
  "log (emits es s) = log s @ es" "pipes (emits es s) = pipes s" "endpoints (emits es s) = endpoints s"
  "inprocs (emits es s) = inprocs s" "ctx_terminated (emits es s) = ctx_terminated s"
  "mon_socket (emits es s) = mon_socket s" "mon_events (emits es s) = mon_events s"
  "opts (emits es s) = opts s" "ticks (emits es s) = ticks s"
  "tag (emits es s) = tag s" "rcvmore (emits es s) = rcvmore s" "thread_safe (emits es s) = thread_safe s"
  "last_endpoint (emits es s) = last_endpoint s" "last_tsc (emits es s) = last_tsc s"
  "destroyed (emits es s) = destroyed s"
  by (simp_all add: emits_def)

subsection \<open>Making a socket\<close>

text \<open>The socket types in the order of their numbers in libzmq's interface.\<close>

definition kinds :: "kind list" where
  "kinds = [ZMQ_PAIR, ZMQ_PUB, ZMQ_SUB, ZMQ_REQ, ZMQ_REP, ZMQ_DEALER, ZMQ_ROUTER, ZMQ_PULL, ZMQ_PUSH,
     ZMQ_XPUB, ZMQ_XSUB, ZMQ_STREAM, ZMQ_SERVER, ZMQ_CLIENT, ZMQ_RADIO, ZMQ_DISH, ZMQ_GATHER,
     ZMQ_SCATTER, ZMQ_DGRAM]"

text \<open>\<open>blocky\<close> is the option of the context; \<open>opt0\<close> the options' own defaults.\<close>

definition live_tag :: u32 where "live_tag = 0xbaddecaf"
definition dead_tag :: u32 where "dead_tag = 0xdeadbeef"

definition socket_base_t :: "config \<Rightarrow> options \<Rightarrow> bool \<Rightarrow> bool \<Rightarrow> kind \<Rightarrow> socket" where
  "socket_base_t cfg opt0 blocky v6 k =
     \<lparr>tag = live_tag, ctx_terminated = False, destroyed = False, last_tsc = 0, ticks = 0, rcvmore = False,
      mon_socket = False, mon_events = 0, thread_safe = thread_safe_kind cfg k, last_endpoint = [], pipes = [], endpoints = [], inprocs = [],
      opts = opt0\<lparr>otype := k, opt_linger := (if blocky then -1 else 0), ipv6 := v6\<rparr>, log = []\<rparr>"

text \<open>\<open>mailbox_fd\<close>: whether the mailbox of a socket that is not thread safe got a descriptor.\<close>

definition create :: "config \<Rightarrow> options \<Rightarrow> bool \<Rightarrow> bool \<Rightarrow> bool \<Rightarrow> int \<Rightarrow> errno option + socket" where
  "create cfg opt0 blocky v6 mailbox_fd type =
     (if type < 0 \<or> int (length kinds) \<le> type then Inl (Some EINVAL)
      else let s = socket_base_t cfg opt0 blocky v6 (kinds ! nat type) in
           if \<not> thread_safe s \<and> \<not> mailbox_fd then Inl None else Inr s)"

definition check_tag :: "socket \<Rightarrow> bool" where
  "check_tag s \<longleftrightarrow> tag s = live_tag"

definition close_sock :: "socket \<Rightarrow> socket" where
  "close_sock s = emits ((if thread_safe s then [Signalers_Cleared] else []) @ [Send_Reap]) (s\<lparr>tag := dead_tag\<rparr>)"

text \<open>
  Signalers wake those who wait for a thread-safe socket. \<open>stop_sock\<close> is called by the thread that
  terminates the context: it puts a stop command into the socket's own mailbox.
\<close>

definition add_signaler :: "nat \<Rightarrow> socket \<Rightarrow> fault + socket" where
  "add_signaler n s = (if thread_safe s then Inr (emit (Signaler_Added n) s) else Inl Assert_Failed)"

definition remove_signaler :: "nat \<Rightarrow> socket \<Rightarrow> fault + socket" where
  "remove_signaler n s = (if thread_safe s then Inr (emit (Signaler_Removed n) s) else Inl Assert_Failed)"

definition stop_sock :: "socket \<Rightarrow> socket" where
  "stop_sock s = emit Send_Stop s"

subsection \<open>Addresses\<close>

fun find_sub :: "string \<Rightarrow> string \<Rightarrow> nat option" where
  "find_sub pat [] = (if pat = [] then Some 0 else None)"
| "find_sub pat (c # s) =
     (if take (length pat) (c # s) = pat then Some 0 else map_option Suc (find_sub pat s))"

definition parse_uri :: "string \<Rightarrow> errno + string \<times> string" where
  "parse_uri uri =
     (case find_sub ''://'' uri of
        None \<Rightarrow> Inl EINVAL
      | Some pos \<Rightarrow>
          let protocol = take pos uri; address = drop (pos + 3) uri in
          if protocol = [] \<or> address = [] then Inl EINVAL else Inr (protocol, address))"

definition check_protocol :: "config \<Rightarrow> kind \<Rightarrow> string \<Rightarrow> errno option" where
  "check_protocol cfg k protocol =
     (if protocol \<noteq> ''inproc'' \<and> \<not> (have_ipc cfg \<and> protocol = ''ipc'') \<and> protocol \<noteq> ''tcp''
         \<and> \<not> (have_openpgm cfg \<and> (protocol = ''pgm'' \<or> protocol = ''epgm''))
         \<and> \<not> (have_tipc cfg \<and> protocol = ''tipc'') \<and> \<not> (have_norm cfg \<and> protocol = ''norm'')
         \<and> \<not> (have_vmci cfg \<and> protocol = ''vmci'') \<and> protocol \<noteq> ''udp''
      then Some EPROTONOSUPPORT
      else if (have_openpgm cfg \<or> have_norm cfg)
              \<and> (protocol = ''pgm'' \<or> protocol = ''epgm'' \<or> protocol = ''norm'')
              \<and> k \<noteq> ZMQ_PUB \<and> k \<noteq> ZMQ_SUB \<and> k \<noteq> ZMQ_XPUB \<and> k \<noteq> ZMQ_XSUB
      then Some ENOCOMPATPROTO
      else if protocol = ''udp'' \<and> k \<noteq> ZMQ_DISH \<and> k \<noteq> ZMQ_RADIO \<and> k \<noteq> ZMQ_DGRAM
      then Some ENOCOMPATPROTO
      else None)"

text \<open>The two checks as bind, connect, disconnect and monitor make them, one after the other.\<close>

definition parse_addr :: "config \<Rightarrow> kind \<Rightarrow> string \<Rightarrow> errno + string \<times> string" where
  "parse_addr cfg k uri =
     (case parse_uri uri of
        Inl e \<Rightarrow> Inl e
      | Inr (protocol, address) \<Rightarrow>
          (case check_protocol cfg k protocol of None \<Rightarrow> Inr (protocol, address) | Some e \<Rightarrow> Inl e))"

text \<open>The check of a TCP address in connect: where the scan stops, then the character after the last colon.\<close>

definition isalnum :: "char \<Rightarrow> bool" where
  "isalnum c \<longleftrightarrow> (let n = of_char c :: nat in
     (48 \<le> n \<and> n \<le> 57) \<or> (65 \<le> n \<and> n \<le> 90) \<or> (97 \<le> n \<and> n \<le> 122))"

definition addr_first :: "char \<Rightarrow> bool" where
  "addr_first c \<longleftrightarrow> isalnum c \<or> c = CHR ''['' \<or> c = CHR '':''"

definition addr_rest :: "char \<Rightarrow> bool" where
  "addr_rest c \<longleftrightarrow> isalnum c \<or> c \<in> set ''.-:%;[]_*''"

definition scan_addr :: "string \<Rightarrow> string" where
  "scan_addr a = (case a of [] \<Rightarrow> [] | c # s \<Rightarrow> if addr_first c then dropWhile addr_rest s else a)"

definition strrchr :: "string \<Rightarrow> char \<Rightarrow> string option" where
  "strrchr s c = (if c \<in> set s then Some (c # rev (takeWhile (\<lambda>x. x \<noteq> c) (rev s))) else None)"

definition tcp_syntax :: "string \<Rightarrow> errno option" where
  "tcp_syntax address =
     (if scan_addr address = [] then
        (case strrchr address CHR '':'' of
           Some (_ # d # _) \<Rightarrow> if is_digit d then None else Some EINVAL
         | _ \<Rightarrow> Some EINVAL)
      else Some EINVAL)"

section \<open>Facts about addresses\<close>

lemma find_sub_Some:
  "find_sub pat s = Some i \<longleftrightarrow>
     take (length pat) (drop i s) = pat \<and> i \<le> length s \<and> (\<forall>j<i. take (length pat) (drop j s) \<noteq> pat)"
proof (induction pat s arbitrary: i rule: find_sub.induct)
  case (1 pat)
  then show ?case by auto
next
  case (2 pat c s)
  show ?case
  proof (cases "take (length pat) (c # s) = pat")
    case True
    then show ?thesis by (cases i) auto
  next
    case False
    show ?thesis
    proof (cases i)
      case 0
      with False show ?thesis by auto
    next
      case (Suc k)
      have "(\<forall>j<Suc k. take (length pat) (drop j (c # s)) \<noteq> pat)
          \<longleftrightarrow> take (length pat) (c # s) \<noteq> pat \<and> (\<forall>j<k. take (length pat) (drop j s) \<noteq> pat)"
        by (auto simp: less_Suc_eq_0_disj)
      with 2 [of k] False Suc show ?thesis by auto
    qed
  qed
qed

lemma tcp_scan: "scan_addr a = [] \<longleftrightarrow> (case a of [] \<Rightarrow> True | c # s \<Rightarrow> addr_first c \<and> list_all addr_rest s)"
  by (auto simp: scan_addr_def list_all_iff split: list.splits)

lemma strrchr_last: "c \<notin> set r \<Longrightarrow> strrchr (h @ c # r) c = Some (c # r)"
  by (simp add: strrchr_def) (subst takeWhile_append2; auto)

lemma strrchr_split: "strrchr s c = Some (c # r) \<longleftrightarrow> (\<exists>h. s = h @ c # r \<and> c \<notin> set r)"
proof
  assume found: "strrchr s c = Some (c # r)"
  then have "c \<in> set s" by (simp add: strrchr_def split: if_splits)
  then obtain h r' where s: "s = h @ c # r'" "c \<notin> set r'" by (metis split_list_last)
  with found strrchr_last [OF s(2), of h] show "\<exists>h. s = h @ c # r \<and> c \<notin> set r" by auto
next
  assume "\<exists>h. s = h @ c # r \<and> c \<notin> set r"
  then show "strrchr s c = Some (c # r)" by (auto simp: strrchr_last)
qed

lemma strrchr_colon: "strrchr s c = Some t \<Longrightarrow> \<exists>r. t = c # r"
  by (auto simp: strrchr_def split: if_splits)

text \<open>The check, protocol by protocol.\<close>

abbreviation multicast_kinds :: "kind set" where "multicast_kinds \<equiv> {ZMQ_PUB, ZMQ_SUB, ZMQ_XPUB, ZMQ_XSUB}"
abbreviation datagram_kinds :: "kind set" where "datagram_kinds \<equiv> {ZMQ_DISH, ZMQ_RADIO, ZMQ_DGRAM}"
abbreviation compiled :: "bool \<Rightarrow> errno option" where "compiled b \<equiv> if b then None else Some EPROTONOSUPPORT"
abbreviation multicast :: "bool \<Rightarrow> kind \<Rightarrow> errno option" where
  "multicast b k \<equiv> if \<not> b then Some EPROTONOSUPPORT else if k \<in> multicast_kinds then None else Some ENOCOMPATPROTO"

lemma kind_sets:
  "k \<noteq> ZMQ_PUB \<and> k \<noteq> ZMQ_SUB \<and> k \<noteq> ZMQ_XPUB \<and> k \<noteq> ZMQ_XSUB \<longleftrightarrow> k \<notin> multicast_kinds"
  "k \<noteq> ZMQ_DISH \<and> k \<noteq> ZMQ_RADIO \<and> k \<noteq> ZMQ_DGRAM \<longleftrightarrow> k \<notin> datagram_kinds"
  by simp_all

lemma check_protocol_simps:
  "check_protocol cfg k ''inproc'' = None" "check_protocol cfg k ''tcp'' = None"
  "check_protocol cfg k ''ipc'' = compiled (have_ipc cfg)"
  "check_protocol cfg k ''tipc'' = compiled (have_tipc cfg)"
  "check_protocol cfg k ''vmci'' = compiled (have_vmci cfg)"
  "check_protocol cfg k ''pgm'' = multicast (have_openpgm cfg) k"
  "check_protocol cfg k ''epgm'' = multicast (have_openpgm cfg) k"
  "check_protocol cfg k ''norm'' = multicast (have_norm cfg) k"
  "check_protocol cfg k ''udp'' = (if k \<in> datagram_kinds then None else Some ENOCOMPATPROTO)"
  unfolding check_protocol_def kind_sets by (simp_all del: insert_iff)

lemma check_protocol_unknown:
  "protocol \<notin> {''inproc'', ''ipc'', ''tcp'', ''pgm'', ''epgm'', ''tipc'', ''norm'', ''vmci'', ''udp''} \<Longrightarrow>
     check_protocol cfg k protocol = Some EPROTONOSUPPORT"
  unfolding check_protocol_def kind_sets by simp

section \<open>The properties\<close>

text \<open>
  Addresses. An address splits at its first separator into a protocol and the rest,
  neither of them empty; anything else is an invalid argument. So splitting what was put
  together gives the parts back.
\<close>

theorem parse_uri_splits:
  "parse_uri uri = Inr (protocol, address) \<longleftrightarrow>
     uri = protocol @ ''://'' @ address \<and> protocol \<noteq> [] \<and> address \<noteq> []
     \<and> (\<forall>j < length protocol. take 3 (drop j uri) \<noteq> ''://'')"
proof
  assume l: "parse_uri uri = Inr (protocol, address)"
  then obtain pos where pos: "find_sub ''://'' uri = Some pos"
    "protocol = take pos uri" "address = drop (pos + 3) uri" "protocol \<noteq> []" "address \<noteq> []"
    by (auto simp: parse_uri_def Let_def split: option.splits if_splits)
  from pos(1) have sep: "take 3 (drop pos uri) = ''://''" "pos \<le> length uri"
    "\<forall>j<pos. take 3 (drop j uri) \<noteq> ''://''"
    by (auto simp: find_sub_Some numeral_3_eq_3)
  have "uri = take pos uri @ take 3 (drop pos uri) @ drop (pos + 3) uri"
    by (metis add.commute append_take_drop_id drop_drop)
  with pos sep show "uri = protocol @ ''://'' @ address \<and> protocol \<noteq> [] \<and> address \<noteq> []
     \<and> (\<forall>j < length protocol. take 3 (drop j uri) \<noteq> ''://'')" by simp
next
  assume r: "uri = protocol @ ''://'' @ address \<and> protocol \<noteq> [] \<and> address \<noteq> []
     \<and> (\<forall>j < length protocol. take 3 (drop j uri) \<noteq> ''://'')"
  then have "find_sub ''://'' uri = Some (length protocol)"
    by (auto simp: find_sub_Some numeral_3_eq_3)
  with r show "parse_uri uri = Inr (protocol, address)" by (auto simp: parse_uri_def)
qed

theorem parse_uri_splits_witness: "parse_uri ''tcp://host:1'' = Inr (''tcp'', ''host:1'')"
proof -
  have "\<forall>j < length ''tcp''. take 3 (drop j ''tcp://host:1'') \<noteq> ''://''" by code_simp
  then show ?thesis by (simp add: parse_uri_splits)
qed

text \<open>
  The address check of connect. A TCP address passes exactly if its first character may
  start one, all others may occur in one, and a digit follows its last colon.
\<close>

theorem tcp_syntax_accepts:
  "tcp_syntax a = None \<longleftrightarrow>
     (case a of [] \<Rightarrow> False | c # s \<Rightarrow> addr_first c \<and> list_all addr_rest s)
     \<and> (\<exists>h d r. a = h @ CHR '':'' # d # r \<and> is_digit d \<and> CHR '':'' \<notin> set (d # r))"
proof -
  have "(case strrchr a CHR '':'' of Some (_ # d # _) \<Rightarrow> if is_digit d then None else Some EINVAL
         | _ \<Rightarrow> Some EINVAL) = None \<longleftrightarrow>
      (\<exists>d r. strrchr a CHR '':'' = Some (CHR '':'' # d # r) \<and> is_digit d)"
    by (auto split: option.splits list.splits dest: strrchr_colon)
  also have "\<dots> \<longleftrightarrow> (\<exists>h d r. a = h @ CHR '':'' # d # r \<and> is_digit d \<and> CHR '':'' \<notin> set (d # r))"
    unfolding strrchr_split by blast
  finally have port: "(case strrchr a CHR '':'' of Some (_ # d # _) \<Rightarrow> if is_digit d then None else Some EINVAL
         | _ \<Rightarrow> Some EINVAL) = None \<longleftrightarrow>
      (\<exists>h d r. a = h @ CHR '':'' # d # r \<and> is_digit d \<and> CHR '':'' \<notin> set (d # r))" .
  show ?thesis
  proof (cases "scan_addr a = []")
    case True
    with port tcp_scan [of a] show ?thesis by (cases a) (auto simp: tcp_syntax_def scan_addr_def)
  next
    case False
    with tcp_scan [of a] show ?thesis by (cases a) (auto simp: tcp_syntax_def)
  qed
qed

text \<open>
  Protocols and socket types. What is accepted: in-process and TCP addresses for every
  type, UDP for the three datagram types only, multicast for the publishing and
  subscribing types only, and the others when compiled in.
\<close>

theorem check_protocol_accepts:
  "check_protocol cfg k protocol = None \<longleftrightarrow>
     protocol \<in> {''inproc'', ''tcp''}
     \<or> protocol = ''udp'' \<and> k \<in> {ZMQ_DISH, ZMQ_RADIO, ZMQ_DGRAM}
     \<or> protocol = ''ipc'' \<and> have_ipc cfg \<or> protocol = ''tipc'' \<and> have_tipc cfg
     \<or> protocol = ''vmci'' \<and> have_vmci cfg
     \<or> (protocol \<in> {''pgm'', ''epgm''} \<and> have_openpgm cfg \<or> protocol = ''norm'' \<and> have_norm cfg)
       \<and> k \<in> {ZMQ_PUB, ZMQ_SUB, ZMQ_XPUB, ZMQ_XSUB}"
proof (cases "protocol \<in> {''inproc'', ''ipc'', ''tcp'', ''pgm'', ''epgm'', ''tipc'', ''norm'', ''vmci'', ''udp''}")
  case True
  then have "protocol = ''inproc'' \<or> protocol = ''ipc'' \<or> protocol = ''tcp'' \<or> protocol = ''pgm''
    \<or> protocol = ''epgm'' \<or> protocol = ''tipc'' \<or> protocol = ''norm'' \<or> protocol = ''vmci''
    \<or> protocol = ''udp''" by simp
  then show ?thesis by (elim disjE) (simp_all add: check_protocol_simps)
next
  case False
  then show ?thesis by (simp add: check_protocol_unknown)
qed

end
