(* ===== verification/Socket_Monitor.thy ===== *)
theory Socket_Monitor
  imports Socket_Base Monitor_Properties
begin

section \<open>libzmq's socket_base.cpp: the monitor\<close>

text \<open>
  A socket reports its events on a PAIR socket of its own, bound to an in-process address,
  to which the monitor threads of the programs connect. \<open>stop_monitor\<close> gets the value of its
  argument; where the code leaves it out, that is the default of the configuration.
\<close>

definition monitor_frame :: "int \<Rightarrow> int \<Rightarrow> byte list" where
  "monitor_frame event value = le_bytes 2 (word_of_int event :: u16) @ le_bytes 4 (word_of_int value :: u32)"

definition monitor_event :: "int \<Rightarrow> int \<Rightarrow> byte list \<Rightarrow> socket \<Rightarrow> socket" where
  "monitor_event event value addr s =
     (if mon_socket s then emit (Mon_Send [monitor_frame event value, addr]) s else s)"

definition socket_event :: "byte list \<Rightarrow> int \<Rightarrow> int \<Rightarrow> socket \<Rightarrow> socket" where
  "socket_event addr value type s =
     (if mon_events s AND type \<noteq> 0 then monitor_event type value addr s else s)"

definition stop_monitor :: "bool \<Rightarrow> socket \<Rightarrow> socket" where
  "stop_monitor send_stopped s =
     (if mon_socket s then
        (let s1 = (if mon_events s AND ZMQ_EVENT_MONITOR_STOPPED \<noteq> 0 \<and> send_stopped
                   then monitor_event ZMQ_EVENT_MONITOR_STOPPED 0 [] s else s)
         in (emit Mon_Close s1)\<lparr>mon_socket := False, mon_events := 0\<rparr>)
      else s)"

text \<open>The destructor: only a socket that has been marked as destroyed may be deleted.\<close>

definition delete_socket :: "config \<Rightarrow> socket \<Rightarrow> fault + socket" where
  "delete_socket cfg s =
     (let s1 = stop_monitor (stopped_default cfg) s in if destroyed s1 then Inr s1 else Inl Assert_Failed)"

text \<open>
  What the calls that open the monitor socket return: whether \<^verbatim>\<open>zmq_socket\<close> made one and the
  errors of \<^verbatim>\<open>zmq_setsockopt\<close> and \<^verbatim>\<open>zmq_bind\<close>. When setting the linger time fails, the
  socket is closed and a null pointer bound, \<open>null_bind\<close> telling with which result.
\<close>

record monitor_in =
  made :: "errno option"
  linger_set :: "errno option"
  bound :: "errno option"
  null_bind :: "errno option"

definition socket_monitor :: "config \<Rightarrow> monitor_in \<Rightarrow> string option \<Rightarrow> int \<Rightarrow> socket \<Rightarrow> errno option \<times> socket" where
  "socket_monitor cfg i addr events s =
     (if ctx_terminated s then (Some ETERM, s)
      else case addr of
        None \<Rightarrow> (None, stop_monitor (stopped_default cfg) s)
      | Some a \<Rightarrow>
          (case parse_addr cfg (otype (opts s)) a of
             Inl e \<Rightarrow> (Some e, s)
           | Inr (protocol, address) \<Rightarrow>
               if protocol \<noteq> ''inproc'' then (Some EPROTONOSUPPORT, s)
               else
                 let s1 = (stop_monitor True s)\<lparr>mon_events := events\<rparr> in
                 case made i of
                   Some e \<Rightarrow> (Some e, s1)
                 | None \<Rightarrow>
                     let s2 = (emit (Mon_Open a) s1)\<lparr>mon_socket := True\<rparr> in
                     case linger_set i of
                       Some e \<Rightarrow> (null_bind i, stop_monitor False s2)
                     | None \<Rightarrow>
                         (case bound i of
                            Some e \<Rightarrow> (Some e, stop_monitor False s2)
                          | None \<Rightarrow> (None, s2))))"

text \<open>The functions that report the events, one for each kind.\<close>

definition event_connected :: "byte list \<Rightarrow> int \<Rightarrow> socket \<Rightarrow> socket" where
  "event_connected addr fd = socket_event addr fd ZMQ_EVENT_CONNECTED"
definition event_connect_delayed :: "byte list \<Rightarrow> int \<Rightarrow> socket \<Rightarrow> socket" where
  "event_connect_delayed addr err = socket_event addr err ZMQ_EVENT_CONNECT_DELAYED"
definition event_connect_retried :: "byte list \<Rightarrow> int \<Rightarrow> socket \<Rightarrow> socket" where
  "event_connect_retried addr interval = socket_event addr interval ZMQ_EVENT_CONNECT_RETRIED"
definition event_listening :: "byte list \<Rightarrow> int \<Rightarrow> socket \<Rightarrow> socket" where
  "event_listening addr fd = socket_event addr fd ZMQ_EVENT_LISTENING"
definition event_bind_failed :: "byte list \<Rightarrow> int \<Rightarrow> socket \<Rightarrow> socket" where
  "event_bind_failed addr err = socket_event addr err ZMQ_EVENT_BIND_FAILED"
definition event_accepted :: "byte list \<Rightarrow> int \<Rightarrow> socket \<Rightarrow> socket" where
  "event_accepted addr fd = socket_event addr fd ZMQ_EVENT_ACCEPTED"
definition event_accept_failed :: "byte list \<Rightarrow> int \<Rightarrow> socket \<Rightarrow> socket" where
  "event_accept_failed addr err = socket_event addr err ZMQ_EVENT_ACCEPT_FAILED"
definition event_closed :: "byte list \<Rightarrow> int \<Rightarrow> socket \<Rightarrow> socket" where
  "event_closed addr fd = socket_event addr fd ZMQ_EVENT_CLOSED"
definition event_close_failed :: "byte list \<Rightarrow> int \<Rightarrow> socket \<Rightarrow> socket" where
  "event_close_failed addr err = socket_event addr err ZMQ_EVENT_CLOSE_FAILED"
definition event_disconnected :: "byte list \<Rightarrow> int \<Rightarrow> socket \<Rightarrow> socket" where
  "event_disconnected addr fd = socket_event addr fd ZMQ_EVENT_DISCONNECTED"
definition event_handshake_failed_no_detail :: "byte list \<Rightarrow> int \<Rightarrow> socket \<Rightarrow> socket" where
  "event_handshake_failed_no_detail addr err = socket_event addr err ZMQ_EVENT_HANDSHAKE_FAILED_NO_DETAIL"
definition event_handshake_failed_protocol :: "byte list \<Rightarrow> int \<Rightarrow> socket \<Rightarrow> socket" where
  "event_handshake_failed_protocol addr err = socket_event addr err ZMQ_EVENT_HANDSHAKE_FAILED_PROTOCOL"
definition event_handshake_failed_auth :: "byte list \<Rightarrow> int \<Rightarrow> socket \<Rightarrow> socket" where
  "event_handshake_failed_auth addr err = socket_event addr err ZMQ_EVENT_HANDSHAKE_FAILED_AUTH"
definition event_handshake_succeeded :: "byte list \<Rightarrow> int \<Rightarrow> socket \<Rightarrow> socket" where
  "event_handshake_succeeded addr err = socket_event addr err ZMQ_EVENT_HANDSHAKE_SUCCEEDED"

end
