(* ===== verification/Socket_Pipes.thy ===== *)
theory Socket_Pipes
  imports Socket_Monitor
begin

section \<open>libzmq's socket_base.cpp: pipes and endpoints\<close>

text \<open>
  The socket keeps the pipes attached to it, in \<open>endpoints\<close> the sessions and listeners it
  owns under their addresses, each with its pipe if it has one, and in \<open>inprocs\<close> the pipes
  of in-process connections. What can happen to them: a pipe is attached, reports that it
  was hiccuped or has terminated, options change, the socket terminates, an endpoint is
  disconnected.
\<close>

definition attach_pipe :: "config \<Rightarrow> nat \<Rightarrow> bool \<Rightarrow> socket \<Rightarrow> socket" where
  "attach_pipe cfg p subscribe_to_all s =
     (let s1 = emit (Xattach_Pipe p subscribe_to_all) (s\<lparr>pipes := pipes s @ [p]\<rparr>)
      in if is_terminating cfg (log s1) then emits [Register_Term_Acks 1, Pipe_Terminate p False] s1 else s1)"

definition add_endpoint :: "string \<Rightarrow> nat \<Rightarrow> nat option \<Rightarrow> socket \<Rightarrow> socket" where
  "add_endpoint addr child pipe s =
     (emit (Launch_Child child) s)\<lparr>endpoints := mm_insert addr (child, pipe) (endpoints s)\<rparr>"

text \<open>The reports of a pipe; the functions of the base class stop the program.\<close>

definition read_activated :: "config \<Rightarrow> nat \<Rightarrow> socket \<Rightarrow> fault + socket" where
  "read_activated cfg p s = (if hears_reads cfg then Inr (emit (Xread_Activated p) s) else Inl Assert_Failed)"

definition write_activated :: "config \<Rightarrow> nat \<Rightarrow> socket \<Rightarrow> fault + socket" where
  "write_activated cfg p s = (if hears_writes cfg then Inr (emit (Xwrite_Activated p) s) else Inl Assert_Failed)"

definition hiccuped :: "config \<Rightarrow> nat \<Rightarrow> socket \<Rightarrow> fault + socket" where
  "hiccuped cfg p s =
     (if immediate (opts s) = 1 then Inr (emits [Hiccuped_By p, Pipe_Terminate p False] s)
      else if hears_hiccups cfg then Inr (emits [Hiccuped_By p, Xhiccuped p] s)
      else Inl Assert_Failed)"

text \<open>The first entry of \<open>inprocs\<close> with the pipe is taken out, in the order of the map.\<close>

fun erase_pipe :: "nat \<Rightarrow> (string \<times> nat) list \<Rightarrow> (string \<times> nat) list" where
  "erase_pipe p [] = []"
| "erase_pipe p ((a, q) # m) = (if q = p then m else (a, q) # erase_pipe p m)"

definition pipe_terminated :: "config \<Rightarrow> nat \<Rightarrow> socket \<Rightarrow> socket" where
  "pipe_terminated cfg p s =
     (let s1 = (emit (Xpipe_Terminated p) s)\<lparr>inprocs := erase_pipe p (inprocs s), pipes := array_erase cfg p (pipes s)\<rparr>
      in if is_terminating cfg (log s1) then emit Unregister_Term_Ack s1 else s1)"

datatype opt_name = SNDHWM | RCVHWM | RCVMORE | FD | EVENTS | LAST_ENDPOINT | THREAD_SAFE | Other_Opt int

definition update_pipe_options :: "opt_name \<Rightarrow> socket \<Rightarrow> socket" where
  "update_pipe_options option s =
     (if option = SNDHWM \<or> option = RCVHWM then
        emits (concat (map (\<lambda>p. [Pipe_Set_Hwms p (rcvhwm (opts s)) (sndhwm (opts s)),
                                Pipe_Send_Hwms p (sndhwm (opts s)) (rcvhwm (opts s))]) (pipes s))) s
      else s)"

definition process_stop :: "config \<Rightarrow> socket \<Rightarrow> socket" where
  "process_stop cfg s = (stop_monitor (stopped_default cfg) s)\<lparr>ctx_terminated := True\<rparr>"

definition process_bind :: "config \<Rightarrow> nat \<Rightarrow> socket \<Rightarrow> socket" where
  "process_bind cfg p = attach_pipe cfg p False"

definition process_term :: "int \<Rightarrow> socket \<Rightarrow> socket" where
  "process_term linger s =
     emits ([Unregister_Endpoints] @ map (\<lambda>p. Pipe_Terminate p False) (pipes s)
       @ [Register_Term_Acks (length (pipes s)), Own_Process_Term linger]) s"

definition process_destroy :: "socket \<Rightarrow> socket" where
  "process_destroy s = s\<lparr>destroyed := True\<rparr>"

subsection \<open>Disconnecting\<close>

text \<open>
  What \<^verbatim>\<open>term_endpoint\<close> gets: whether the context had the address registered, and the text
  of the address resolved for connecting and for binding, when that succeeds.
\<close>

record term_in =
  unregistered :: bool
  resolved :: "string option"
  resolved_local :: "string option"

definition resolve_key :: "term_in \<Rightarrow> string \<Rightarrow> string \<Rightarrow> socket \<Rightarrow> string" where
  "resolve_key i protocol addr s =
     (if protocol = ''tcp'' \<and> addr \<notin> fst ` set (endpoints s) then
        (case resolved i of
           None \<Rightarrow> addr
         | Some a \<Rightarrow>
             if a \<notin> fst ` set (endpoints s) then (case resolved_local i of None \<Rightarrow> a | Some b \<Rightarrow> b) else a)
      else addr)"

text \<open>
  The pointers to look for: the code constructs the vector with as many null pointers as
  there are entries and then appends the pipes. \<open>terminate_pipes\<close> is the loop over the
  attached pipes, \<open>found\<close> its counter, and gives the pipes it terminates.
\<close>

definition pipes_to_terminate :: "(nat \<times> nat option) list \<Rightarrow> nat option list" where
  "pipes_to_terminate rng = replicate (length rng) None @ filter (\<lambda>p. p \<noteq> None) (map snd rng)"

fun terminate_pipes :: "nat option list \<Rightarrow> nat list \<Rightarrow> nat \<Rightarrow> nat list" where
  "terminate_pipes vector [] found = []"
| "terminate_pipes vector (p # ps) found =
     (if Some p \<in> set vector
      then p # (if found + 1 = length vector then [] else terminate_pipes vector ps (found + 1))
      else terminate_pipes vector ps found)"

text \<open>\<^verbatim>\<open>term_endpoint\<close> from where the commands have been processed.\<close>

definition term_parsed :: "config \<Rightarrow> string \<Rightarrow> term_in \<Rightarrow> socket \<Rightarrow> errno option \<times> socket" where
  "term_parsed cfg addr i s =
     (case parse_addr cfg (otype (opts s)) addr of
        Inl e \<Rightarrow> (Some e, s)
      | Inr (protocol, address) \<Rightarrow>
          if protocol = ''inproc'' then
            if unregistered i then (None, emit (Unregister_Endpoint addr) s)
            else if mm_range addr (inprocs s) = [] then (Some ENOENT, emit (Unregister_Endpoint addr) s)
            else (None, (emits (Unregister_Endpoint addr # map (\<lambda>p. Pipe_Terminate p True) (mm_range addr (inprocs s))) s)
                          \<lparr>inprocs := mm_erase addr (inprocs s)\<rparr>)
          else
            let key = resolve_key i protocol addr s; rng = mm_range key (endpoints s) in
            if rng = [] then (Some ENOENT, s)
            else (None, (emits (map (\<lambda>p. Pipe_Terminate p False) (terminate_pipes (pipes_to_terminate rng) (pipes s) 0)
                                @ map (\<lambda>e. Term_Child (fst e)) rng) s)
                          \<lparr>endpoints := mm_erase key (endpoints s)\<rparr>))"

subsection \<open>The end of a socket\<close>

text \<open>
  The reaper takes the socket over: \<open>poller\<close> entries are added and removed, the object is
  terminated, and deallocated once it is marked destroyed.
\<close>

definition check_destroy :: "socket \<Rightarrow> socket" where
  "check_destroy s = (if destroyed s then emits [Poller_Remove, Destroy_Socket, Send_Reaped, Own_Process_Destroy] s else s)"

definition start_reaping :: "socket \<Rightarrow> socket" where
  "start_reaping s =
     check_destroy (emits ((if thread_safe s then [Reaper_Signaled] else []) @ [Poller_Add, Own_Terminate]) s)"

section \<open>Terminating exactly the pipes asked for\<close>

lemma set_pipes_to_terminate:
  "Some p \<in> set (pipes_to_terminate rng) \<longleftrightarrow> (\<exists>e. (e, Some p) \<in> set rng)"
  by (force simp: pipes_to_terminate_def)

lemma terminate_pipes_filter:
  assumes "found + length (filter (\<lambda>p. Some p \<in> set vector) ps) < length vector"
  shows "terminate_pipes vector ps found = filter (\<lambda>p. Some p \<in> set vector) ps"
  using assms by (induction ps arbitrary: found) auto

text \<open>
  The counter never reaches the length of the vector, because of the null pointers in it:
  the loop always looks at all attached pipes.
\<close>

lemma filter_distinct_bound:
  assumes "distinct ps"
  shows "length (filter (\<lambda>p. Some p \<in> set xs) ps) \<le> length xs"
proof -
  have "length (filter (\<lambda>p. Some p \<in> set xs) ps) = card (set (map Some (filter (\<lambda>p. Some p \<in> set xs) ps)))"
    by (subst distinct_card) (simp_all add: assms distinct_map)
  also have "\<dots> \<le> card (set xs)" by (rule card_mono) auto
  also have "\<dots> \<le> length xs" by (rule card_length)
  finally show ?thesis .
qed

lemma terminate_pipes_all:
  assumes "distinct ps" "rng \<noteq> []"
  shows "terminate_pipes (pipes_to_terminate rng) ps 0 = filter (\<lambda>p. \<exists>e. (e, Some p) \<in> set rng) ps"
proof -
  let ?named = "filter (\<lambda>p. p \<noteq> None) (map snd rng)"
  have "Some p \<in> set (pipes_to_terminate rng) \<longleftrightarrow> Some p \<in> set ?named" for p
    by (auto simp: pipes_to_terminate_def)
  then have "length (filter (\<lambda>p. Some p \<in> set (pipes_to_terminate rng)) ps) \<le> length ?named"
    using filter_distinct_bound [OF assms(1), of ?named] by simp
  also have "\<dots> < length (pipes_to_terminate rng)"
    using assms(2) by (simp add: pipes_to_terminate_def)
  finally show ?thesis
    by (subst terminate_pipes_filter) (simp_all add: set_pipes_to_terminate)
qed

end
