(* ===== verification/Socket_Commands.thy ===== *)
theory Socket_Commands
  imports Socket_Pipes
begin

section \<open>libzmq's socket_base.cpp: processing commands\<close>

text \<open>
  Other threads talk to a socket by commands in its mailbox, which it looks at before most
  operations. A \<open>batch\<close> is what one call of \<open>process_commands\<close> finds: the processor's tick
  counter, the commands received and the error that ended the receiving. Disconnecting an
  endpoint on command looks at the mailbox again, so the command carries the batch found
  then. \<open>Other\<close> is a command for another object.
\<close>

datatype command =
    Stop
  | Bind_Pipe nat
  | Term_Linger int
  | Destroy
  | Term_Endpoint string term_in batch
  | Activate_Read nat
  | Activate_Write nat
  | Hiccup nat
  | Pipe_Term_Ack nat
  | Other
and batch = Batch u64 "command list" errno

type_synonym outcome = "fault + errno option \<times> socket"

text \<open>
  \<^verbatim>\<open>term_endpoint\<close> around the processing of commands, which is an argument, and the end of
  \<^verbatim>\<open>process_commands\<close>.
\<close>

definition term_endpoint_with ::
  "config \<Rightarrow> (socket \<Rightarrow> outcome) \<Rightarrow> string option \<Rightarrow> term_in \<Rightarrow> socket \<Rightarrow> outcome" where
  "term_endpoint_with cfg process addr i s =
     (if ctx_terminated s then Inr (Some ETERM, s)
      else case addr of
        None \<Rightarrow> Inr (Some EINVAL, s)
      | Some a \<Rightarrow>
          bind_res (process s) (\<lambda>(rc, s1). Inr (if rc \<noteq> None then (rc, s1) else term_parsed cfg a i s1)))"

definition end_commands :: "errno \<Rightarrow> socket \<Rightarrow> outcome" where
  "end_commands e s =
     (if e = EINTR then Inr (Some EINTR, s)
      else if e \<noteq> EAGAIN then Inl Assert_Failed
      else if ctx_terminated s then Inr (Some ETERM, s)
      else Inr (None, s))"

text \<open>
  A call that does not wait may be throttled: it does nothing if the counter has not moved by
  more than \<open>max_command_delay\<close> since the last look.
\<close>

definition throttled :: "config \<Rightarrow> int \<Rightarrow> bool \<Rightarrow> u64 \<Rightarrow> socket \<Rightarrow> bool" where
  "throttled cfg timeout throttle tsc s \<longleftrightarrow>
     timeout = 0 \<and> tsc \<noteq> 0 \<and> throttle \<and> last_tsc s \<le> tsc \<and> tsc - last_tsc s \<le> max_command_delay cfg"

definition note_tsc :: "int \<Rightarrow> bool \<Rightarrow> u64 \<Rightarrow> socket \<Rightarrow> socket" where
  "note_tsc timeout throttle tsc s =
     (if timeout = 0 \<and> tsc \<noteq> 0 \<and> throttle then s\<lparr>last_tsc := tsc\<rparr> else s)"

fun process_command :: "config \<Rightarrow> command \<Rightarrow> socket \<Rightarrow> fault + socket"
  and process_list :: "config \<Rightarrow> command list \<Rightarrow> socket \<Rightarrow> fault + socket"
  and process_commands :: "config \<Rightarrow> int \<Rightarrow> bool \<Rightarrow> batch \<Rightarrow> socket \<Rightarrow> outcome" where
  "process_command cfg Stop s = Inr (process_stop cfg s)"
| "process_command cfg (Bind_Pipe p) s = Inr (process_bind cfg p s)"
| "process_command cfg (Term_Linger linger) s = Inr (process_term linger s)"
| "process_command cfg Destroy s = Inr (process_destroy s)"
| "process_command cfg (Term_Endpoint addr i b) s =
     bind_res (term_endpoint_with cfg (\<lambda>s'. process_commands cfg 0 False b s') (Some addr) i s) (\<lambda>(rc, s'). Inr s')"
| "process_command cfg (Activate_Read p) s = read_activated cfg p s"
| "process_command cfg (Activate_Write p) s = write_activated cfg p s"
| "process_command cfg (Hiccup p) s = hiccuped cfg p s"
| "process_command cfg (Pipe_Term_Ack p) s = Inr (pipe_terminated cfg p s)"
| "process_command cfg Other s = Inr s"
| "process_list cfg [] s = Inr s"
| "process_list cfg (c # cs) s = bind_res (process_command cfg c s) (process_list cfg cs)"
| "process_commands cfg timeout throttle (Batch tsc cs e) s =
     (if throttled cfg timeout throttle tsc s then Inr (None, s)
      else bind_res (process_list cfg cs (emit Mailbox_Read (note_tsc timeout throttle tsc s))) (end_commands e))"

definition term_endpoint :: "config \<Rightarrow> batch \<Rightarrow> string option \<Rightarrow> term_in \<Rightarrow> socket \<Rightarrow> outcome" where
  "term_endpoint cfg b addr i = term_endpoint_with cfg (process_commands cfg 0 False b) addr i"

text \<open>What the reaper does with the commands of a closed socket.\<close>

definition in_event :: "config \<Rightarrow> batch \<Rightarrow> socket \<Rightarrow> fault + socket" where
  "in_event cfg b s =
     bind_res (process_commands cfg 0 False b (if thread_safe s then emit Reaper_Unsignaled s else s))
       (\<lambda>(rc, s'). Inr (check_destroy s'))"

text \<open>The socket never registers for the other two events of a poller.\<close>

definition out_event :: "socket \<Rightarrow> fault + socket" where
  "out_event s = Inl Assert_Failed"

definition timer_event :: "int \<Rightarrow> socket \<Rightarrow> fault + socket" where
  "timer_event n s = Inl Assert_Failed"

end
