(* ===== verification/Socket_Connect.thy ===== *)
theory Socket_Connect
  imports Socket_Commands
begin

section \<open>libzmq's socket_base.cpp: connect and bind\<close>

text \<open>
  What one call of \<^verbatim>\<open>connect\<close> gets from the rest of libzmq: the commands processed first; for
  an in-process address the peer that has bound it, if any, with its options (the default
  ones if there is none); the two ends of the new pipe (\<open>None\<close> if making it failed) and
  whether the routing id could be written to it; whether there is an I/O thread; the errors
  of resolving the address, protocol by protocol; the session, and the address as text.
\<close>

record connect_in =
  ci_batch :: batch
  peer :: "nat option"
  peer_options :: options
  new_pipes :: "(nat \<times> nat) option"
  id_written :: bool
  io_thread :: bool
  ipc_resolved :: "errno option"
  udp_resolved :: "errno option"
  pgm_checked :: "errno option"
  tipc_resolved :: "errno option"
  tipc_random :: bool
  vmci_resolved :: "errno option"
  session :: "nat option"
  resolved_name :: string

definition connected :: "socket \<Rightarrow> socket" where
  "connected s = s\<lparr>opts := (opts s)\<lparr>opt_connected := True\<rparr>\<rparr>"

definition conflates :: "options \<Rightarrow> bool" where
  "conflates o' \<longleftrightarrow> conflate o' \<and> otype o' \<in> {ZMQ_DEALER, ZMQ_PULL, ZMQ_PUSH, ZMQ_PUB, ZMQ_SUB}"

text \<open>
  The water mark of an in-process pipe in one direction: the sum of the two sides', where 0
  on either means unlimited.
\<close>

definition inproc_hwm :: "bool \<Rightarrow> int \<Rightarrow> int \<Rightarrow> int" where
  "inproc_hwm alone mine theirs = (if alone then mine else if mine \<noteq> 0 \<and> theirs \<noteq> 0 then mine + theirs else 0)"

definition inproc_pair :: "options \<Rightarrow> connect_in \<Rightarrow> nat \<times> nat \<Rightarrow> effect list" where
  "inproc_pair o' i ab =
     (case ab of (a, b) \<Rightarrow>
        let sh = inproc_hwm (peer i = None) (sndhwm o') (rcvhwm (peer_options i));
            rh = inproc_hwm (peer i = None) (rcvhwm o') (sndhwm (peer_options i));
            c = conflates o'
        in Pipepair a b (if c then -1 else sh) (if c then -1 else rh) c
           # (if c then []
              else [Hwms_Boost a (sndhwm (peer_options i)) (rcvhwm (peer_options i)),
                    Hwms_Boost b (sndhwm o') (rcvhwm o')]))"

text \<open>
  The routing ids go ahead of all messages: without a peer the own one in any case, with a
  peer in each direction as the receiving side asks for.
\<close>

definition inproc_ids :: "options \<Rightarrow> connect_in \<Rightarrow> nat \<times> nat \<Rightarrow> effect list" where
  "inproc_ids o' i ab =
     (case ab of (a, b) \<Rightarrow>
        (if peer i = None \<or> recv_routing_id (peer_options i) then [Pipe_Write_Id a (routing_id o')] else [])
        @ (if peer i \<noteq> None \<and> recv_routing_id o' then [Pipe_Write_Id b (routing_id (peer_options i))] else []))"

definition remember_inproc :: "config \<Rightarrow> string \<Rightarrow> nat \<Rightarrow> socket \<Rightarrow> socket" where
  "remember_inproc cfg addr p s =
     (attach_pipe cfg p False s)\<lparr>last_endpoint := addr, inprocs := mm_insert addr p (inprocs s)\<rparr>"

definition connect_inproc :: "config \<Rightarrow> connect_in \<Rightarrow> string \<Rightarrow> socket \<Rightarrow> outcome" where
  "connect_inproc cfg i addr s =
     (case new_pipes i of
        None \<Rightarrow> Inl (if conflates (opts s) then Assert_Failed else Null_Deref)
      | Some (a, b) \<Rightarrow>
          if inproc_ids (opts s) i (a, b) \<noteq> [] \<and> \<not> id_written i then Inl Assert_Failed
          else Inr (None, connected (remember_inproc cfg addr a (emits
             (inproc_pair (opts s) i (a, b) @ inproc_ids (opts s) i (a, b)
              @ [case peer i of None \<Rightarrow> Pend_Connection addr a b | Some q \<Rightarrow> Send_Bind q b]) s))))"

text \<open>What is checked of the address of the other transports.\<close>

definition resolve_error :: "config \<Rightarrow> connect_in \<Rightarrow> kind \<Rightarrow> string \<Rightarrow> string \<Rightarrow> errno option" where
  "resolve_error cfg i k protocol address =
     (if protocol = ''tcp'' then tcp_syntax address
      else if protocol = ''ipc'' \<and> have_ipc cfg then ipc_resolved i
      else if protocol = ''udp'' then (if k \<noteq> ZMQ_RADIO then Some ENOCOMPATPROTO else udp_resolved i)
      else if (protocol = ''pgm'' \<or> protocol = ''epgm'') \<and> have_openpgm cfg then pgm_checked i
      else if protocol = ''tipc'' \<and> have_tipc cfg then
        (case tipc_resolved i of Some e \<Rightarrow> Some e | None \<Rightarrow> if tipc_random i then Some EINVAL else None)
      else if protocol = ''vmci'' \<and> have_vmci cfg then vmci_resolved i
      else None)"

definition single_connect :: "kind \<Rightarrow> bool" where
  "single_connect k \<longleftrightarrow> k \<in> {ZMQ_DEALER, ZMQ_SUB, ZMQ_PUB, ZMQ_REQ}"

definition to_all :: "string \<Rightarrow> bool" where
  "to_all protocol \<longleftrightarrow> protocol \<in> {''pgm'', ''epgm'', ''norm'', ''udp''}"

text \<open>A session gets a pipe at once, unless the pipe waits for the connection.\<close>

definition session_pipe :: "config \<Rightarrow> connect_in \<Rightarrow> string \<Rightarrow> nat \<Rightarrow> socket \<Rightarrow> fault + nat option \<times> socket" where
  "session_pipe cfg i protocol ses s =
     (if immediate (opts s) \<noteq> 1 \<or> to_all protocol then
        (case new_pipes i of
           None \<Rightarrow> Inl Assert_Failed
         | Some (a, b) \<Rightarrow>
             let c = conflates (opts s);
                 pair = Pipepair a b (if c then -1 else sndhwm (opts s)) (if c then -1 else rcvhwm (opts s)) c
             in Inr (Some a, emit (Session_Attach ses b) (attach_pipe cfg a (to_all protocol) (emit pair s))))
      else Inr (None, s))"

definition connect_session :: "config \<Rightarrow> connect_in \<Rightarrow> string \<Rightarrow> string \<Rightarrow> string \<Rightarrow> socket \<Rightarrow> outcome" where
  "connect_session cfg i addr protocol address s =
     (if single_connect (otype (opts s)) \<and> addr \<in> fst ` set (endpoints s) then Inr (None, s)
      else if \<not> io_thread i then Inr (Some EMTHREAD, s)
      else case resolve_error cfg i (otype (opts s)) protocol address of
        Some e \<Rightarrow> Inr (Some e, s)
      | None \<Rightarrow>
          (case session i of
             None \<Rightarrow> Inl Assert_Failed
           | Some ses \<Rightarrow>
               bind_res (session_pipe cfg i protocol ses s) (\<lambda>(pipe, s1).
                 Inr (None, add_endpoint addr ses pipe (s1\<lparr>last_endpoint := resolved_name i\<rparr>)))))"

definition connect :: "config \<Rightarrow> connect_in \<Rightarrow> string \<Rightarrow> socket \<Rightarrow> outcome" where
  "connect cfg i addr s =
     (if ctx_terminated s then Inr (Some ETERM, s)
      else bind_res (process_commands cfg 0 False (ci_batch i) s) (\<lambda>(rc, s1).
        if rc \<noteq> None then Inr (rc, s1)
        else case parse_addr cfg (otype (opts s1)) addr of
          Inl e \<Rightarrow> Inr (Some e, s1)
        | Inr (protocol, address) \<Rightarrow>
            if protocol = ''inproc'' then connect_inproc cfg i addr s1
            else connect_session cfg i addr protocol address s1))"

subsection \<open>bind\<close>

text \<open>
  What one call of \<^verbatim>\<open>bind\<close> gets: the result of registering an in-process address, what a
  multicast address needs to connect instead, and for the others the I/O thread, the
  session or listener with its pipe, and the error or the address it settles on.
\<close>

record bind_in =
  bi_batch :: batch
  registered :: "errno option"
  as_connect :: connect_in
  bi_io_thread :: bool
  bi_udp_resolved :: "errno option"
  bi_session :: "nat option"
  bi_pipes :: "(nat \<times> nat) option"
  listener :: nat
  address_set :: "errno option"
  bind_errno :: int
  bound_name :: string

definition str_bytes :: "string \<Rightarrow> byte list" where
  "str_bytes s = map of_char s"

definition bind_inproc :: "bind_in \<Rightarrow> string \<Rightarrow> socket \<Rightarrow> outcome" where
  "bind_inproc i addr s =
     Inr (case registered i of
        Some e \<Rightarrow> (Some e, emit (Register_Endpoint addr) s)
      | None \<Rightarrow> (None, connected ((emits [Register_Endpoint addr, Connect_Pending addr] s)\<lparr>last_endpoint := addr\<rparr>)))"

definition bind_udp :: "config \<Rightarrow> bind_in \<Rightarrow> string \<Rightarrow> socket \<Rightarrow> outcome" where
  "bind_udp cfg i addr s =
     (if otype (opts s) \<notin> {ZMQ_DGRAM, ZMQ_DISH} then Inr (Some ENOCOMPATPROTO, s)
      else if \<not> bi_io_thread i then Inr (Some EMTHREAD, s)
      else if bi_udp_resolved i \<noteq> None then Inr (bi_udp_resolved i, s)
      else case bi_session i of
        None \<Rightarrow> Inl Assert_Failed
      | Some ses \<Rightarrow>
          (case bi_pipes i of
             None \<Rightarrow> Inl Assert_Failed
           | Some (a, b) \<Rightarrow>
               let s1 = emit (Session_Attach ses b)
                     (attach_pipe cfg a True (emit (Pipepair a b (sndhwm (opts s)) (rcvhwm (opts s)) False) s))
               in Inr (None, add_endpoint addr ses (Some a) (s1\<lparr>last_endpoint := bound_name i\<rparr>))))"

text \<open>TCP, IPC, TIPC and VMCI: only TIPC enters the listener under the address asked for.\<close>

definition bind_listener :: "bind_in \<Rightarrow> string \<Rightarrow> string \<Rightarrow> string \<Rightarrow> socket \<Rightarrow> outcome" where
  "bind_listener i addr protocol address s =
     Inr (case address_set i of
        Some e \<Rightarrow> (Some e, event_bind_failed (str_bytes address) (bind_errno i) s)
      | None \<Rightarrow>
          (None, connected (add_endpoint (if protocol = ''tipc'' then addr else bound_name i) (listener i) None
                   (s\<lparr>last_endpoint := bound_name i\<rparr>))))"

definition bind_parsed :: "config \<Rightarrow> bind_in \<Rightarrow> string \<Rightarrow> string \<Rightarrow> string \<Rightarrow> socket \<Rightarrow> outcome" where
  "bind_parsed cfg i addr protocol address s =
     (if protocol = ''inproc'' then bind_inproc i addr s
      else if protocol \<in> {''pgm'', ''epgm'', ''norm''} then
        bind_res (connect cfg (as_connect i) addr s) (\<lambda>(rc, s1). Inr (rc, if rc = None then connected s1 else s1))
      else if protocol = ''udp'' then bind_udp cfg i addr s
      else if \<not> bi_io_thread i then Inr (Some EMTHREAD, s)
      else if protocol = ''tcp'' \<or> protocol = ''ipc'' \<and> have_ipc cfg \<or> protocol = ''tipc'' \<and> have_tipc cfg
              \<or> protocol = ''vmci'' \<and> have_vmci cfg
      then bind_listener i addr protocol address s
      else Inl Assert_Failed)"

definition bind_socket :: "config \<Rightarrow> bind_in \<Rightarrow> string \<Rightarrow> socket \<Rightarrow> outcome" where
  "bind_socket cfg i addr s =
     (if ctx_terminated s then Inr (Some ETERM, s)
      else bind_res (process_commands cfg 0 False (bi_batch i) s) (\<lambda>(rc, s1).
        if rc \<noteq> None then Inr (rc, s1)
        else case parse_addr cfg (otype (opts s1)) addr of
          Inl e \<Rightarrow> Inr (Some e, s1)
        | Inr (protocol, address) \<Rightarrow> bind_parsed cfg i addr protocol address s1))"

end
