(* ===== verification/Socket_Transfer.thy ===== *)
theory Socket_Transfer
  imports Socket_Connect
begin

section \<open>libzmq's socket_base.cpp: send, receive and options\<close>

text \<open>
  A message as far as the file looks at it: its flag for more parts, its flag for a routing
  id and whether it has metadata.
\<close>

record message =
  msg_more :: bool
  is_routing_id :: bool
  has_metadata :: bool

text \<open>
  The virtual functions of the socket type: \<open>None\<close> for a type that does not override one, so
  that the base class's own runs.
\<close>

definition xresult :: "errno option option \<Rightarrow> errno option" where
  "xresult x = (case x of None \<Rightarrow> Some ENOTSUP | Some r \<Rightarrow> r)"

definition xsetsockopt :: "errno option option \<Rightarrow> errno option" where
  "xsetsockopt x = (case x of None \<Rightarrow> Some EINVAL | Some r \<Rightarrow> r)"

definition xhas :: "bool option \<Rightarrow> bool" where
  "xhas x = (case x of None \<Rightarrow> False | Some b \<Rightarrow> b)"

definition join_group :: "errno option option \<Rightarrow> socket \<Rightarrow> errno option \<times> socket" where
  "join_group x s = (xresult x, s)"

definition leave_group :: "errno option option \<Rightarrow> socket \<Rightarrow> errno option \<times> socket" where
  "leave_group x s = (xresult x, s)"

text \<open>Only ROUTER sockets override it.\<close>

definition get_peer_state :: "errno option option \<Rightarrow> errno option" where
  "get_peer_state x = xresult x"

subsection \<open>The time left\<close>

text \<open>
  The end of a wait is an unsigned 64-bit number of milliseconds; what is left of it goes
  back to an \<^verbatim>\<open>int\<close>.
\<close>

definition deadline :: "int \<Rightarrow> u64 \<Rightarrow> u64" where
  "deadline timeout now = (if timeout < 0 then 0 else now + word_of_int timeout)"

definition time_left :: "u64 \<Rightarrow> u64 \<Rightarrow> int" where
  "time_left end_ms now = sint (ucast (end_ms - now) :: 32 word)"

text \<open>
  The blocking part of both operations: a round processes the commands it finds and tries
  once more. A round gets the batch, the result of the attempt and the time of the clock
  read afterwards. The result is that of the call, or \<open>None\<close> while it is still waiting;
  \<open>block\<close> is whether the first round waits. \<open>act\<close> is the attempt itself.
\<close>

type_synonym round = "batch \<times> errno option \<times> u64"

fun wait_loop ::
  "config \<Rightarrow> effect \<Rightarrow> u64 \<Rightarrow> round list \<Rightarrow> bool \<Rightarrow> int \<Rightarrow> socket \<Rightarrow> fault + errno option option \<times> socket" where
  "wait_loop cfg act end_ms [] block timeout s = Inr (None, s)"
| "wait_loop cfg act end_ms ((b, tried, now) # rounds) block timeout s =
     bind_res (process_commands cfg (if block then timeout else 0) False b s) (\<lambda>(rc, s1).
       if rc \<noteq> None then Inr (Some rc, s1)
       else
         let s2 = emit act s1 in
         case tried of
           None \<Rightarrow> Inr (Some None, s2)
         | Some e \<Rightarrow>
             if e \<noteq> EAGAIN then Inr (Some (Some e), s2)
             else if timeout > 0 then
               (if time_left end_ms now \<le> 0 then Inr (Some (Some EAGAIN), s2)
                else wait_loop cfg act end_ms rounds True (time_left end_ms now) s2)
             else wait_loop cfg act end_ms rounds True timeout s2)"

subsection \<open>send\<close>

text \<open>The message given, \<open>None\<close> if it is missing or not valid, and the one handed on.\<close>

definition outgoing :: "bool \<Rightarrow> message \<Rightarrow> message" where
  "outgoing sndmore m = m\<lparr>msg_more := sndmore, has_metadata := False\<rparr>"

record send_in =
  si_batch :: batch
  si_first :: "errno option"
  si_now :: u64
  si_rounds :: "round list"

definition send_msg ::
  "config \<Rightarrow> send_in \<Rightarrow> message option \<Rightarrow> bool \<Rightarrow> bool \<Rightarrow> socket \<Rightarrow> fault + errno option option \<times> socket" where
  "send_msg cfg i msg dontwait sndmore s =
     (if ctx_terminated s then Inr (Some (Some ETERM), s)
      else case msg of
        None \<Rightarrow> Inr (Some (Some EFAULT), s)
      | Some m \<Rightarrow>
          bind_res (process_commands cfg 0 True (si_batch i) s) (\<lambda>(rc, s1).
            if rc \<noteq> None then Inr (Some rc, s1)
            else
              let act = Xsend (msg_more (outgoing sndmore m)); s2 = emit act s1 in
              case si_first i of
                None \<Rightarrow> Inr (Some None, s2)
              | Some e \<Rightarrow>
                  if e \<noteq> EAGAIN then Inr (Some (Some e), s2)
                  else if dontwait \<or> sndtimeo (opts s2) = 0 then Inr (Some (Some EAGAIN), s2)
                  else wait_loop cfg act (deadline (sndtimeo (opts s2)) (si_now i)) (si_rounds i) True
                         (sndtimeo (opts s2)) s2))"

subsection \<open>recv\<close>

text \<open>\<open>got\<close> is the message the socket type hands over when an attempt succeeds.\<close>

record recv_in =
  ri_batch :: batch
  ri_first :: "errno option"
  ri_again :: "batch \<times> errno option"
  ri_now :: u64
  ri_rounds :: "round list"
  ri_got :: message

definition extract_flags :: "message \<Rightarrow> socket \<Rightarrow> fault + socket" where
  "extract_flags m s =
     (if is_routing_id m \<and> \<not> recv_routing_id (opts s) then Inl Assert_Failed else Inr (s\<lparr>rcvmore := msg_more m\<rparr>))"

definition finish_recv :: "message \<Rightarrow> errno option option \<times> socket \<Rightarrow> fault + errno option option \<times> socket" where
  "finish_recv m r =
     (case r of (rc, s) \<Rightarrow>
        if rc = Some None then bind_res (extract_flags m s) (\<lambda>s'. Inr (rc, s')) else Inr (rc, s))"

text \<open>Every \<open>inbound_poll_rate\<close>-th call looks at the commands first.\<close>

definition recv_tick :: "config \<Rightarrow> batch \<Rightarrow> socket \<Rightarrow> outcome" where
  "recv_tick cfg b s =
     (let s1 = s\<lparr>ticks := Suc (ticks s)\<rparr> in
      if ticks s1 = inbound_poll_rate cfg then
        bind_res (process_commands cfg 0 False b s1) (\<lambda>(rc, s2).
          Inr (if rc \<noteq> None then (rc, s2) else (None, s2\<lparr>ticks := 0\<rparr>)))
      else Inr (None, s1))"

text \<open>Without waiting, the commands are processed once and one more attempt made.\<close>

definition recv_nowait :: "config \<Rightarrow> recv_in \<Rightarrow> socket \<Rightarrow> fault + errno option option \<times> socket" where
  "recv_nowait cfg i s =
     bind_res (process_commands cfg 0 False (fst (ri_again i)) s) (\<lambda>(rc, s1).
       if rc \<noteq> None then Inr (Some rc, s1)
       else finish_recv (ri_got i) (Some (snd (ri_again i)), emit Xrecv (s1\<lparr>ticks := 0\<rparr>)))"

definition recv_wait :: "config \<Rightarrow> recv_in \<Rightarrow> socket \<Rightarrow> fault + errno option option \<times> socket" where
  "recv_wait cfg i s =
     bind_res (wait_loop cfg Xrecv (deadline (rcvtimeo (opts s)) (ri_now i)) (ri_rounds i) (ticks s \<noteq> 0)
                 (rcvtimeo (opts s)) s) (\<lambda>(rc, s1).
       finish_recv (ri_got i) (rc, if rc = Some None then s1\<lparr>ticks := 0\<rparr> else s1))"

definition recv_msg ::
  "config \<Rightarrow> recv_in \<Rightarrow> bool \<Rightarrow> bool \<Rightarrow> socket \<Rightarrow> fault + errno option option \<times> socket" where
  "recv_msg cfg i valid dontwait s =
     (if ctx_terminated s then Inr (Some (Some ETERM), s)
      else if \<not> valid then Inr (Some (Some EFAULT), s)
      else bind_res (recv_tick cfg (ri_batch i) s) (\<lambda>(rc, s1).
        if rc \<noteq> None then Inr (Some rc, s1)
        else
          let s2 = emit Xrecv s1 in
          case ri_first i of
            None \<Rightarrow> finish_recv (ri_got i) (Some None, s2)
          | Some e \<Rightarrow>
              if e \<noteq> EAGAIN then Inr (Some (Some e), s2)
              else if dontwait \<or> rcvtimeo (opts s2) = 0 then recv_nowait cfg i s2
              else recv_wait cfg i s2))"

subsection \<open>Options\<close>

text \<open>
  \<open>valid\<close> is whether the option exists, \<open>x\<close> what the socket type makes of it, \<open>generic\<close> the
  option parser of libzmq.
\<close>

definition set_option ::
  "bool \<Rightarrow> errno option option \<Rightarrow> (options \<Rightarrow> errno option \<times> options) \<Rightarrow> opt_name \<Rightarrow> socket \<Rightarrow> errno option \<times> socket" where
  "set_option valid x generic option s =
     (if \<not> valid then (Some EINVAL, s)
      else if ctx_terminated s then (Some ETERM, s)
      else if xsetsockopt x \<noteq> Some EINVAL then (xsetsockopt x, s)
      else (case generic (opts s) of (rc, o') \<Rightarrow> (rc, update_pipe_options option (s\<lparr>opts := o'\<rparr>))))"

datatype opt_value = Int_Value int | Fd_Value | String_Value string | Generic_Value

text \<open>
  \<open>copied\<close> is the result of copying a value to the caller, \<open>out\<close> and \<open>inp\<close> what the socket type
  says of its readiness; the value is what is copied.
\<close>

definition get_option ::
  "config \<Rightarrow> batch \<Rightarrow> errno option \<Rightarrow> bool option \<Rightarrow> bool option \<Rightarrow> opt_name \<Rightarrow> socket
     \<Rightarrow> fault + (errno option \<times> opt_value option) \<times> socket" where
  "get_option cfg b copied out inp option s =
     (if ctx_terminated s then Inr ((Some ETERM, None), s)
      else if option = RCVMORE then Inr ((copied, Some (Int_Value (if rcvmore s then 1 else 0))), s)
      else if option = FD then
        Inr (if thread_safe s then ((Some EINVAL, None), s) else ((copied, Some Fd_Value), s))
      else if option = EVENTS then
        bind_res (process_commands cfg 0 False b s) (\<lambda>(rc, s1).
          if rc = Some EINTR \<or> rc = Some ETERM then Inr ((rc, None), s1)
          else if rc \<noteq> None then Inl Assert_Failed
          else Inr ((copied, Some (Int_Value ((if xhas out then 2 else 0) + (if xhas inp then 1 else 0)))), s1))
      else if option = LAST_ENDPOINT then Inr ((copied, Some (String_Value (last_endpoint s))), s)
      else if option = THREAD_SAFE then Inr ((copied, Some (Int_Value (if thread_safe s then 1 else 0))), s)
      else Inr ((copied, Some Generic_Value), s))"

end
