(* ===== verification/Socket_Run.thy ===== *)
theory Socket_Run
  imports Socket_Transfer
begin

section \<open>The life of a socket\<close>

text \<open>
  The operations of a socket as the rest of libzmq calls them, each with what it gets, and
  a run of them from a new socket on.
\<close>

datatype sock_op =
    Op_Bind bind_in string
  | Op_Connect connect_in string
  | Op_Term_Endpoint batch "string option" term_in
  | Op_Send send_in "message option" bool bool
  | Op_Recv recv_in bool bool
  | Op_Set_Option bool "errno option option" "options \<Rightarrow> errno option \<times> options" opt_name
  | Op_Get_Option batch "errno option" "bool option" "bool option" opt_name
  | Op_Monitor monitor_in "string option" int
  | Op_Event "byte list" int int
  | Op_Add_Signaler nat
  | Op_Remove_Signaler nat
  | Op_Stop
  | Op_Close
  | Op_Start_Reaping
  | Op_In_Event batch

fun apply_op :: "config \<Rightarrow> sock_op \<Rightarrow> socket \<Rightarrow> fault + socket" where
  "apply_op cfg (Op_Bind i addr) s = bind_res (bind_socket cfg i addr s) (\<lambda>(rc, s'). Inr s')"
| "apply_op cfg (Op_Connect i addr) s = bind_res (connect cfg i addr s) (\<lambda>(rc, s'). Inr s')"
| "apply_op cfg (Op_Term_Endpoint b addr i) s = bind_res (term_endpoint cfg b addr i s) (\<lambda>(rc, s'). Inr s')"
| "apply_op cfg (Op_Send i m dontwait sndmore) s = bind_res (send_msg cfg i m dontwait sndmore s) (\<lambda>(rc, s'). Inr s')"
| "apply_op cfg (Op_Recv i valid dontwait) s = bind_res (recv_msg cfg i valid dontwait s) (\<lambda>(rc, s'). Inr s')"
| "apply_op cfg (Op_Set_Option valid x generic opt) s = Inr (snd (set_option valid x generic opt s))"
| "apply_op cfg (Op_Get_Option b copied out inp opt) s =
     bind_res (get_option cfg b copied out inp opt s) (\<lambda>(rc, s'). Inr s')"
| "apply_op cfg (Op_Monitor i addr events) s = Inr (snd (socket_monitor cfg i addr events s))"
| "apply_op cfg (Op_Event addr value type) s = Inr (socket_event addr value type s)"
| "apply_op cfg (Op_Add_Signaler n) s = add_signaler n s"
| "apply_op cfg (Op_Remove_Signaler n) s = remove_signaler n s"
| "apply_op cfg Op_Stop s = Inr (stop_sock s)"
| "apply_op cfg Op_Close s = Inr (close_sock s)"
| "apply_op cfg Op_Start_Reaping s = Inr (start_reaping s)"
| "apply_op cfg (Op_In_Event b) s = in_event cfg b s"

fun run_ops :: "config \<Rightarrow> sock_op list \<Rightarrow> socket \<Rightarrow> fault + socket" where
  "run_ops cfg [] s = Inr s"
| "run_ops cfg (x # xs) s = bind_res (apply_op cfg x s) (run_ops cfg xs)"

fun user_op :: "sock_op \<Rightarrow> bool" where
  "user_op Op_Close = False"
| "user_op Op_Start_Reaping = False"
| "user_op (Op_In_Event b) = False"
| "user_op x = True"

section \<open>What all operations respect\<close>

text \<open>
  Many facts about a socket relate the states before and after an operation, and hold of
  the whole file once they hold of the few functions that touch the pipes, the monitor,
  the flags and the end of the socket. \<open>plain\<close> are the entries of the log that concern none of these, and
  \<open>same_view\<close> relates states that differ in nothing else.
\<close>

text \<open>
  The entries that belong to the end of a socket: closing, reaping and deallocation.
\<close>

fun ending :: "effect \<Rightarrow> bool" where
  "ending Signalers_Cleared = True"
| "ending Send_Reap = True"
| "ending Reaper_Signaled = True"
| "ending Poller_Add = True"
| "ending Own_Terminate = True"
| "ending Poller_Remove = True"
| "ending Destroy_Socket = True"
| "ending Send_Reaped = True"
| "ending Own_Process_Destroy = True"
| "ending e = False"

fun plain :: "effect \<Rightarrow> bool" where
  "plain (Xattach_Pipe p b) = False"
| "plain (Xpipe_Terminated p) = False"
| "plain (Hiccuped_By p) = False"
| "plain (Pipe_Terminate p b) = False"
| "plain (Pipe_Set_Hwms p a b) = False"
| "plain (Pipe_Send_Hwms p a b) = False"
| "plain (Mon_Open a) = False"
| "plain (Mon_Send fs) = False"
| "plain Mon_Close = False"
| "plain e \<longleftrightarrow> \<not> ending e"

definition same_view :: "socket \<Rightarrow> socket \<Rightarrow> bool" where
  "same_view s s' \<longleftrightarrow> pipes s' = pipes s \<and> inprocs s' = inprocs s \<and> ctx_terminated s' = ctx_terminated s
     \<and> mon_socket s' = mon_socket s \<and> mon_events s' = mon_events s \<and> destroyed s' = destroyed s
     \<and> (\<exists>es. log s' = log s @ es \<and> list_all plain es)"

lemma same_viewI:
  assumes "pipes s' = pipes s" "inprocs s' = inprocs s" "ctx_terminated s' = ctx_terminated s"
    "mon_socket s' = mon_socket s" "mon_events s' = mon_events s" "destroyed s' = destroyed s"
    "log s' = log s @ es" "list_all plain es"
  shows "same_view s s'"
  using assms by (auto simp: same_view_def)

lemma same_view_emits [intro]: "list_all plain es \<Longrightarrow> same_view s (emits es s)"
  by (rule same_viewI) auto

locale socket_relation =
  fixes cfg :: config and R :: "socket \<Rightarrow> socket \<Rightarrow> bool"
  assumes trans: "R s s1 \<Longrightarrow> R s1 s2 \<Longrightarrow> R s s2"
    and quiet: "same_view s s' \<Longrightarrow> R s s'"
    and attach: "R s (attach_pipe cfg p every s)"
    and remember: "R s (remember_inproc cfg addr p s)"
    and hiccup: "hiccuped cfg p s = Inr s' \<Longrightarrow> R s s'"
    and gone: "R s (pipe_terminated cfg p s)"
    and stop: "R s (process_stop cfg s)"
    and terminate: "R s (process_term linger s)"
    and disconnect: "term_parsed cfg addr i s = (rc, s') \<Longrightarrow> R s s'"
    and hwms: "R s (update_pipe_options option s)"
    and monitor: "R s (snd (socket_monitor cfg mi where_to events s))"
    and event: "R s (socket_event bytes value type s)"
    and destroy: "R s (process_destroy s)"
begin

lemma refl: "R s s"
  by (rule quiet) (simp add: same_view_def)

lemma activated: "read_activated cfg p s = Inr s' \<Longrightarrow> R s s'" "write_activated cfg p s = Inr s' \<Longrightarrow> R s s'"
  by (auto simp: read_activated_def write_activated_def intro!: quiet split: if_splits)

lemma ended: "end_commands e s = Inr (rc, s') \<Longrightarrow> R s s'"
  using refl by (auto simp: end_commands_def split: if_splits)

lemma noted: "R s (emit Mailbox_Read (note_tsc timeout throttle tsc s))"
  by (rule quiet, rule same_viewI [where es = "[Mailbox_Read]"]) (auto simp: note_tsc_def)

lemma endpoint_with:
  assumes "\<And>a rc b. process a = Inr (rc, b) \<Longrightarrow> R a b" "term_endpoint_with cfg process addr i s = Inr (rc, s')"
  shows "R s s'"
proof -
  from assms(2) consider "s' = s" | rc1 s1 where "process s = Inr (rc1, s1)" "s' = s1"
    | rc1 s1 a where "process s = Inr (rc1, s1)" "term_parsed cfg a i s1 = (rc, s')"
    by (auto simp: term_endpoint_with_def bind_res_Inr_iff split: if_splits option.splits)
  then show ?thesis using assms(1) refl disconnect trans by cases blast+
qed

lemma commands_of:
  "cfg' = cfg \<Longrightarrow> process_command cfg' c s = Inr s' \<Longrightarrow> R s s'"
  "cfg' = cfg \<Longrightarrow> process_list cfg' cs s = Inr s' \<Longrightarrow> R s s'"
  "cfg' = cfg \<Longrightarrow> process_commands cfg' timeout throttle b s = Inr (rc, s') \<Longrightarrow> R s s'"
proof (induction cfg' c s and cfg' cs s and cfg' timeout throttle b s arbitrary: s' and s' and rc s'
    rule: process_command_process_list_process_commands.induct)
  case (5 cfg' addr i b s)
  then obtain rc where "term_endpoint_with cfg (\<lambda>s'. process_commands cfg 0 False b s') (Some addr) i s = Inr (rc, s')"
    by (auto simp: bind_res_Inr_iff)
  with 5(1) [OF 5(2)] 5(2) show ?case using endpoint_with by blast
next
  case (12 cfg' c cs s)
  then show ?case by (auto simp: bind_res_Inr_iff intro: trans)
next
  case (13 cfg' timeout throttle tsc cs e s)
  then show ?case
    by (auto simp: bind_res_Inr_iff intro: refl trans [OF noted trans [OF _ ended]] split: if_splits)
qed (auto simp: process_bind_def intro: stop attach terminate destroy activated hiccup gone refl)

lemmas commands = commands_of [OF HOL.refl]

lemma emits_plain: "list_all plain es \<Longrightarrow> R s (emits es s)"
  by (rule quiet) auto

lemma connected_keeps: "R s (connected s)"
  by (rule quiet, rule same_viewI [where es = "[]"]) (auto simp: connected_def)

lemma added: "R s (add_endpoint addr child pipe (s\<lparr>last_endpoint := name\<rparr>))"
  by (rule quiet, rule same_viewI [where es = "[Launch_Child child]"]) (auto simp: add_endpoint_def)

lemma inproc: "connect_inproc cfg i addr s = Inr (rc, s') \<Longrightarrow> R s s'"
proof -
  assume l: "connect_inproc cfg i addr s = Inr (rc, s')"
  then obtain a b where "new_pipes i = Some (a, b)"
    "s' = connected (remember_inproc cfg addr a (emits
             (inproc_pair (opts s) i (a, b) @ inproc_ids (opts s) i (a, b)
              @ [case peer i of None \<Rightarrow> Pend_Connection addr a b | Some q \<Rightarrow> Send_Bind q b]) s))"
    by (auto simp: connect_inproc_def split: option.splits if_splits)
  then show "R s s'"
    by (auto simp: inproc_pair_def inproc_ids_def Let_def split: option.splits
        intro!: trans [OF emits_plain trans [OF remember connected_keeps]])
qed

lemma session_piped: "session_pipe cfg i protocol ses s = Inr (pipe, s') \<Longrightarrow> R s s'"
  by (auto simp: session_pipe_def Let_def intro: refl intro!: trans [OF trans [OF emits_plain attach] emits_plain]
      split: if_splits option.splits)

lemma sessions: "connect_session cfg i addr protocol address s = Inr (rc, s') \<Longrightarrow> R s s'"
  by (auto simp: connect_session_def bind_res_Inr_iff intro: refl trans [OF session_piped added]
      split: if_splits option.splits)

lemma connects: "connect cfg i addr s = Inr (rc, s') \<Longrightarrow> R s s'"
  by (auto simp: connect_def bind_res_Inr_iff intro: refl commands(3) trans [OF commands(3) inproc]
      trans [OF commands(3) sessions] split: if_splits sum.splits)

lemma bind_inprocs: "bind_inproc i addr s = Inr (rc, s') \<Longrightarrow> R s s'"
proof (cases "registered i")
  case None
  assume "bind_inproc i addr s = Inr (rc, s')"
  with None have "s' = connected ((emits [Register_Endpoint addr, Connect_Pending addr] s)\<lparr>last_endpoint := addr\<rparr>)"
    by (simp add: bind_inproc_def)
  then show ?thesis
    by (intro quiet same_viewI [where es = "[Register_Endpoint addr, Connect_Pending addr]"]) (simp_all add: connected_def)
next
  case (Some e)
  assume "bind_inproc i addr s = Inr (rc, s')"
  with Some show ?thesis by (auto simp: bind_inproc_def intro: emits_plain)
qed

lemma bind_udps: "bind_udp cfg i addr s = Inr (rc, s') \<Longrightarrow> R s s'"
  by (auto simp: bind_udp_def Let_def split: option.splits if_splits intro: refl
      intro!: trans [OF trans [OF trans [OF emits_plain attach] emits_plain] added])

lemma bind_listeners: "bind_listener i addr protocol address s = Inr (rc, s') \<Longrightarrow> R s s'"
  by (cases "address_set i") (auto simp: bind_listener_def event_bind_failed_def
      intro!: event trans [OF added connected_keeps])

lemma bind_parts:
  assumes "bind_parsed cfg i addr protocol address s = Inr (rc, s')"
  shows "R s s'"
proof -
  from assms consider "bind_inproc i addr s = Inr (rc, s')" | "connect cfg (as_connect i) addr s = Inr (rc, s')"
    | s1 where "connect cfg (as_connect i) addr s = Inr (rc, s1)" "s' = connected s1"
    | "bind_udp cfg i addr s = Inr (rc, s')" | "s' = s" | "bind_listener i addr protocol address s = Inr (rc, s')"
    unfolding bind_parsed_def by (simp add: bind_res_Inr_iff split: if_split_asm) blast+
  then show ?thesis
    by cases (auto intro: bind_inprocs bind_udps bind_listeners connects refl trans [OF connects connected_keeps])
qed

lemma binds: "bind_socket cfg i addr s = Inr (rc, s') \<Longrightarrow> R s s'"
  by (auto simp: bind_socket_def bind_res_Inr_iff intro: refl commands(3) trans [OF commands(3) bind_parts]
      split: if_splits sum.splits)

lemma disconnects: "term_endpoint cfg b addr i s = Inr (rc, s') \<Longrightarrow> R s s'"
  unfolding term_endpoint_def by (erule endpoint_with [rotated]) (rule commands(3))

lemma waits: "plain act \<Longrightarrow> wait_loop cfg act end_ms rounds block timeout s = Inr (rc, s') \<Longrightarrow> R s s'"
proof (induction rounds arbitrary: block timeout s)
  case Nil
  then show ?case by (simp add: refl)
next
  case (Cons r rounds)
  obtain b tried now where r: "r = (b, tried, now)" by (cases r) auto
  from Cons.prems(2) obtain rc1 s1 where
    p: "process_commands cfg (if block then timeout else 0) False b s = Inr (rc1, s1)"
    and k: "(if rc1 \<noteq> None then Inr (Some rc1, s1)
       else let s2 = emit act s1 in
         case tried of
           None \<Rightarrow> Inr (Some None, s2)
         | Some e \<Rightarrow>
             if e \<noteq> EAGAIN then Inr (Some (Some e), s2)
             else if timeout > 0 then
               (if time_left end_ms now \<le> 0 then Inr (Some (Some EAGAIN), s2)
                else wait_loop cfg act end_ms rounds True (time_left end_ms now) s2)
             else wait_loop cfg act end_ms rounds True timeout s2) = Inr (rc, s')"
    by (auto simp: r bind_res_Inr_iff)
  have "R s s1" using p by (rule commands(3))
  moreover have "R s1 (emit act s1)" using Cons.prems(1) by (intro emits_plain) simp
  moreover have "R (emit act s1) s' \<or> s' = s1 \<or> s' = emit act s1"
    using k Cons.IH [OF Cons.prems(1)] by (auto simp: Let_def split: if_splits option.splits)
  ultimately show ?case using trans by blast
qed

lemma attempts: "R s (emit Xrecv s)" "R s (emit (Xsend b) s)" "R s (emit Reaper_Unsignaled s)"
  by (rule emits_plain, simp)+

lemmas waits_recv = waits [of Xrecv, simplified] and waits_send = waits [of "Xsend b" for b, simplified]

lemma sends: "send_msg cfg i m dontwait sndmore s = Inr (rc, s') \<Longrightarrow> R s s'"
  by (auto simp: send_msg_def Let_def bind_res_Inr_iff split: if_splits option.splits
      intro: refl commands(3) trans [OF commands(3) attempts(2)]
        trans [OF trans [OF commands(3) attempts(2)] waits_send])

lemma finishes: "finish_recv m (rc, s) = Inr (rc', s') \<Longrightarrow> R s s'"
  by (auto simp: finish_recv_def extract_flags_def bind_res_Inr_iff split: if_splits
      intro: refl intro!: quiet same_viewI [where es = "[]"])

lemma ticked: "R s (s\<lparr>ticks := n\<rparr>)"
  by (rule quiet, rule same_viewI [where es = "[]"]) auto

lemma recv_ticks: "recv_tick cfg b s = Inr (rc, s') \<Longrightarrow> R s s'"
  by (auto simp: recv_tick_def Let_def bind_res_Inr_iff split: if_splits
      intro: ticked trans [OF ticked commands(3)] trans [OF trans [OF ticked commands(3)] ticked])

lemma recv_nowaits: "recv_nowait cfg i s = Inr (rc, s') \<Longrightarrow> R s s'"
  by (auto simp: recv_nowait_def bind_res_Inr_iff split: if_splits
      intro: commands(3) trans [OF trans [OF trans [OF commands(3) ticked] attempts(1)] finishes])

lemma recv_waits: "recv_wait cfg i s = Inr (rc, s') \<Longrightarrow> R s s'"
  by (auto simp: recv_wait_def bind_res_Inr_iff split: if_splits
      intro: trans [OF waits_recv finishes] trans [OF trans [OF waits_recv ticked] finishes])

lemma recvs: "recv_msg cfg i valid dontwait s = Inr (rc, s') \<Longrightarrow> R s s'"
  by (auto simp: recv_msg_def Let_def bind_res_Inr_iff split: if_splits option.splits
      intro: refl recv_ticks trans [OF trans [OF recv_ticks attempts(1)] finishes]
        trans [OF recv_ticks attempts(1)] trans [OF trans [OF recv_ticks attempts(1)] recv_nowaits]
        trans [OF trans [OF recv_ticks attempts(1)] recv_waits])

lemma sets_option: "R s (snd (set_option valid x generic option s))"
  by (auto simp: set_option_def intro: refl split: prod.splits
      intro!: trans [OF quiet [OF same_viewI [where es = "[]"]] hwms])

lemma gets_option: "get_option cfg b copied out inp option s = Inr (rc, s') \<Longrightarrow> R s s'"
  by (auto simp: get_option_def bind_res_Inr_iff intro: refl commands(3) split: if_splits)

lemma signals: "add_signaler n s = Inr s' \<Longrightarrow> R s s'" "remove_signaler n s = Inr s' \<Longrightarrow> R s s'" "R s (stop_sock s)"
  by (auto simp: add_signaler_def remove_signaler_def stop_sock_def intro!: emits_plain split: if_splits)

text \<open>What the owner of a socket asks of it until it closes it.\<close>

lemma user_op_keeps: "user_op x \<Longrightarrow> apply_op cfg x s = Inr s' \<Longrightarrow> R s s'"
  by (cases x) (auto simp: bind_res_Inr_iff intro: binds connects disconnects sends recvs sets_option gets_option
      monitor event signals)

lemma user_ops_keep: "list_all user_op xs \<Longrightarrow> run_ops cfg xs s = Inr s' \<Longrightarrow> R s s'"
  by (induction xs arbitrary: s) (auto simp: bind_res_Inr_iff refl intro: trans user_op_keeps)

text \<open>The reaper's look at the mailbox of a closed socket.\<close>

lemma reaper_looks:
  "process_commands cfg 0 False b (if thread_safe s then emit Reaper_Unsignaled s else s) = Inr (rc, s') \<Longrightarrow> R s s'"
  by (auto split: if_splits intro: commands(3) trans [OF attempts(3) commands(3)])

end

text \<open>Relations that the end of a socket respects as well.\<close>

locale socket_life = socket_relation +
  assumes ends: "list_all ending es \<Longrightarrow> R s (emits es (s\<lparr>tag := t\<rparr>))"
begin

lemma ends_same: "list_all ending es \<Longrightarrow> R s (emits es s)"
  using ends [of es s "tag s"] by simp

lemma closes: "R s (close_sock s)"
  unfolding close_sock_def by (rule ends) simp

lemma check_destroys: "R s (check_destroy s)"
  by (auto simp: check_destroy_def intro: refl intro!: ends_same)

lemma reaps: "R s (start_reaping s)"
  by (auto simp: start_reaping_def intro!: trans [OF ends_same check_destroys])

lemma in_events: "in_event cfg b s = Inr s' \<Longrightarrow> R s s'"
  by (auto simp: in_event_def bind_res_Inr_iff dest!: reaper_looks intro: trans [OF _ check_destroys])

lemma op_keeps: "apply_op cfg x s = Inr s' \<Longrightarrow> R s s'"
  using user_op_keeps [of x s s'] by (cases x) (auto simp: bind_res_Inr_iff intro: closes reaps in_events)

lemma run_keeps: "run_ops cfg xs s = Inr s' \<Longrightarrow> R s s'"
  by (induction xs arbitrary: s) (auto simp: bind_res_Inr_iff refl intro: trans op_keeps)

end

end
