(* ===== verification/Socket_Properties.thy ===== *)
theory Socket_Properties
  imports Socket_Run
begin

section \<open>What holds of every socket\<close>

subsection \<open>Pipes\<close>

text \<open>
  The log replayed against the set \<open>L\<close> of attached pipes. \<open>pipes_behave\<close> is what the code relies
  on: a pipe attached is a new one, and only an attached pipe reports anything.
  \<open>uses_attached\<close> is what the code must see to: it calls only pipes that are attached, since
  one that has terminated is deallocated.
\<close>

fun attach_step :: "effect \<Rightarrow> nat set \<Rightarrow> nat set" where
  "attach_step (Xattach_Pipe p b) L = insert p L"
| "attach_step (Xpipe_Terminated p) L = L - {p}"
| "attach_step e L = L"

fun behaves :: "effect \<Rightarrow> nat set \<Rightarrow> bool" where
  "behaves (Xattach_Pipe p b) L \<longleftrightarrow> p \<notin> L"
| "behaves (Xpipe_Terminated p) L \<longleftrightarrow> p \<in> L"
| "behaves (Hiccuped_By p) L \<longleftrightarrow> p \<in> L"
| "behaves e L \<longleftrightarrow> True"

fun allowed :: "effect \<Rightarrow> nat set \<Rightarrow> bool" where
  "allowed (Pipe_Terminate p b) L \<longleftrightarrow> p \<in> L"
| "allowed (Pipe_Set_Hwms p x y) L \<longleftrightarrow> p \<in> L"
| "allowed (Pipe_Send_Hwms p x y) L \<longleftrightarrow> p \<in> L"
| "allowed e L \<longleftrightarrow> True"

fun attached :: "effect list \<Rightarrow> nat set \<Rightarrow> nat set" where
  "attached [] L = L"
| "attached (e # es) L = attached es (attach_step e L)"

fun pipes_behave :: "effect list \<Rightarrow> nat set \<Rightarrow> bool" where
  "pipes_behave [] L = True"
| "pipes_behave (e # es) L \<longleftrightarrow> behaves e L \<and> pipes_behave es (attach_step e L)"

fun uses_attached :: "effect list \<Rightarrow> nat set \<Rightarrow> bool" where
  "uses_attached [] L = True"
| "uses_attached (e # es) L \<longleftrightarrow> allowed e L \<and> uses_attached es (attach_step e L)"

lemma attached_append [simp]: "attached (es @ fs) L = attached fs (attached es L)"
  by (induction es arbitrary: L) auto

lemma pipes_behave_append [simp]:
  "pipes_behave (es @ fs) L \<longleftrightarrow> pipes_behave es L \<and> pipes_behave fs (attached es L)"
  by (induction es arbitrary: L) auto

lemma uses_attached_append [simp]:
  "uses_attached (es @ fs) L \<longleftrightarrow> uses_attached es L \<and> uses_attached fs (attached es L)"
  by (induction es arbitrary: L) auto

lemma plain_step: "plain e \<or> ending e \<Longrightarrow> attach_step e L = L \<and> allowed e L"
  by (cases e) auto

lemma replay_steps: "list_all (\<lambda>e. plain e \<or> ending e) es \<Longrightarrow> attached es L = L \<and> uses_attached es L"
  by (induction es) (auto simp: plain_step)

lemma plain_replay: "list_all plain es \<Longrightarrow> attached es L = L \<and> uses_attached es L"
  by (rule replay_steps) (auto simp: list_all_iff)

lemma ending_replay: "list_all ending es \<Longrightarrow> attached es L = L \<and> uses_attached es L"
  by (rule replay_steps) (auto simp: list_all_iff)

lemma uses_terminate:
  "attached (map (\<lambda>p. Pipe_Terminate p b) ps) L = L"
  "uses_attached (map (\<lambda>p. Pipe_Terminate p b) ps) L \<longleftrightarrow> set ps \<subseteq> L"
  by (induction ps) auto

lemma uses_hwms:
  "attached (concat (map (\<lambda>p. [Pipe_Set_Hwms p x y, Pipe_Send_Hwms p y x]) ps)) L = L"
  "uses_attached (concat (map (\<lambda>p. [Pipe_Set_Hwms p x y, Pipe_Send_Hwms p y x]) ps)) L \<longleftrightarrow> set ps \<subseteq> L"
  by (induction ps) auto

text \<open>The lists of the socket agree with each other.\<close>

definition socket_wf :: "socket \<Rightarrow> bool" where
  "socket_wf s \<longleftrightarrow> distinct (pipes s) \<and> distinct (map snd (inprocs s)) \<and> snd ` set (inprocs s) \<subseteq> set (pipes s)"

lemma socket_wf_same:
  "pipes s' = pipes s \<Longrightarrow> inprocs s' = inprocs s \<Longrightarrow> socket_wf s' \<longleftrightarrow> socket_wf s"
  by (simp add: socket_wf_def)

lemma socket_wf_emits [simp]: "socket_wf (emits es s) \<longleftrightarrow> socket_wf s"
  by (simp add: socket_wf_def)

definition pipe_rel :: "config \<Rightarrow> socket \<Rightarrow> socket \<Rightarrow> bool" where
  "pipe_rel cfg s s' \<longleftrightarrow> (\<exists>es. log s' = log s @ es \<and>
     (erases cfg \<longrightarrow> socket_wf s \<longrightarrow> pipes_behave es (set (pipes s)) \<longrightarrow>
        socket_wf s' \<and> uses_attached es (set (pipes s)) \<and> set (pipes s') = attached es (set (pipes s))))"

lemma pipe_relI:
  assumes "log s' = log s @ es"
    and "erases cfg \<Longrightarrow> socket_wf s \<Longrightarrow> pipes_behave es (set (pipes s)) \<Longrightarrow>
      socket_wf s' \<and> uses_attached es (set (pipes s)) \<and> set (pipes s') = attached es (set (pipes s))"
  shows "pipe_rel cfg s s'"
  using assms by (auto simp: pipe_rel_def)

lemma distinct_erase_pipe:
  assumes "distinct (map snd m)"
  shows "distinct (map snd (erase_pipe p m)) \<and> snd ` set (erase_pipe p m) = snd ` set m - {p}"
  using assms by (induction p m rule: erase_pipe.induct) auto

lemma distinct_mm_insert:
  "distinct (map snd (mm_insert k p m)) \<longleftrightarrow> p \<notin> snd ` set m \<and> distinct (map snd m)"
  by (induction k p m rule: mm_insert.induct) auto

lemma set_terminate_pipes: "set (terminate_pipes vector ps found) \<subseteq> set ps"
  by (induction vector ps found rule: terminate_pipes.induct) auto

lemma attach_rel: "pipe_rel cfg s (attach_pipe cfg p b s)"
proof (rule pipe_relI)
  let ?tail = "if is_terminating cfg (log s @ [Xattach_Pipe p b]) then [Register_Term_Acks 1, Pipe_Terminate p False] else []"
  show "log (attach_pipe cfg p b s) = log s @ (Xattach_Pipe p b # ?tail)"
    by (simp add: attach_pipe_def Let_def)
  show "socket_wf (attach_pipe cfg p b s) \<and> uses_attached (Xattach_Pipe p b # ?tail) (set (pipes s))
      \<and> set (pipes (attach_pipe cfg p b s)) = attached (Xattach_Pipe p b # ?tail) (set (pipes s))"
    if "socket_wf s" "pipes_behave (Xattach_Pipe p b # ?tail) (set (pipes s))"
    using that by (auto simp: attach_pipe_def Let_def socket_wf_def)
qed

lemma attach_pipe_simps [simp]:
  "pipes (attach_pipe cfg p b s) = pipes s @ [p]" "inprocs (attach_pipe cfg p b s) = inprocs s"
  "ctx_terminated (attach_pipe cfg p b s) = ctx_terminated s" "mon_socket (attach_pipe cfg p b s) = mon_socket s"
  "mon_events (attach_pipe cfg p b s) = mon_events s"
  by (simp_all add: attach_pipe_def Let_def)

lemma remember_rel: "pipe_rel cfg s (remember_inproc cfg addr p s)"
proof -
  obtain es where es: "log (attach_pipe cfg p False s) = log s @ es"
    "erases cfg \<longrightarrow> socket_wf s \<longrightarrow> pipes_behave es (set (pipes s)) \<longrightarrow>
      socket_wf (attach_pipe cfg p False s) \<and> uses_attached es (set (pipes s))
      \<and> set (pipes (attach_pipe cfg p False s)) = attached es (set (pipes s))"
    using attach_rel [of cfg s p False] unfolding pipe_rel_def by blast
  show ?thesis
  proof (rule pipe_relI)
    show "log (remember_inproc cfg addr p s) = log s @ es" using es(1) by (simp add: remember_inproc_def)
    assume h: "erases cfg" "socket_wf s" "pipes_behave es (set (pipes s))"
    with es(2) have wf: "socket_wf (attach_pipe cfg p False s)" and u: "uses_attached es (set (pipes s))"
      and a: "set (pipes s @ [p]) = attached es (set (pipes s))" by simp_all
    from wf h(2) have "p \<notin> snd ` set (inprocs s)" by (auto simp: socket_wf_def)
    with wf have "socket_wf (remember_inproc cfg addr p s)"
      by (simp add: remember_inproc_def socket_wf_def distinct_mm_insert)
    with u a show "socket_wf (remember_inproc cfg addr p s) \<and> uses_attached es (set (pipes s))
      \<and> set (pipes (remember_inproc cfg addr p s)) = attached es (set (pipes s))"
      by (simp add: remember_inproc_def)
  qed
qed

lemma gone_rel: "pipe_rel cfg s (pipe_terminated cfg p s)"
proof (rule pipe_relI)
  let ?tail = "if is_terminating cfg (log s @ [Xpipe_Terminated p]) then [Unregister_Term_Ack] else []"
  show "log (pipe_terminated cfg p s) = log s @ (Xpipe_Terminated p # ?tail)"
    by (simp add: pipe_terminated_def Let_def)
  assume "erases cfg" "socket_wf s" "pipes_behave (Xpipe_Terminated p # ?tail) (set (pipes s))"
  moreover from this(2) have "distinct (map snd (erase_pipe p (inprocs s)))"
    "snd ` set (erase_pipe p (inprocs s)) = snd ` set (inprocs s) - {p}"
    using distinct_erase_pipe by (auto simp: socket_wf_def)
  ultimately show "socket_wf (pipe_terminated cfg p s) \<and> uses_attached (Xpipe_Terminated p # ?tail) (set (pipes s))
      \<and> set (pipes (pipe_terminated cfg p s)) = attached (Xpipe_Terminated p # ?tail) (set (pipes s))"
    by (auto simp: pipe_terminated_def Let_def socket_wf_def erases_def)
qed

lemma quiet_rel: "same_view s s' \<Longrightarrow> pipe_rel cfg s s'"
  by (auto simp: same_view_def pipe_rel_def socket_wf_def plain_replay)

lemma pipe_rel_trans:
  assumes "pipe_rel cfg s s1" "pipe_rel cfg s1 s2"
  shows "pipe_rel cfg s s2"
proof -
  from assms obtain es fs where "log s1 = log s @ es" "log s2 = log s1 @ fs"
    "erases cfg \<longrightarrow> socket_wf s \<longrightarrow> pipes_behave es (set (pipes s)) \<longrightarrow>
      socket_wf s1 \<and> uses_attached es (set (pipes s)) \<and> set (pipes s1) = attached es (set (pipes s))"
    "erases cfg \<longrightarrow> socket_wf s1 \<longrightarrow> pipes_behave fs (set (pipes s1)) \<longrightarrow>
      socket_wf s2 \<and> uses_attached fs (set (pipes s1)) \<and> set (pipes s2) = attached fs (set (pipes s1))"
    unfolding pipe_rel_def by blast
  then show ?thesis by (intro pipe_relI [of _ _ "es @ fs"]) auto
qed

lemma ends_rel: "list_all ending es \<Longrightarrow> pipe_rel cfg s (emits es (s\<lparr>tag := t\<rparr>))"
  by (rule pipe_relI [where es = es]) (auto simp: socket_wf_def ending_replay)

lemma destroy_rel: "pipe_rel cfg s (process_destroy s)"
  by (rule pipe_relI [where es = "[]"]) (auto simp: process_destroy_def socket_wf_def)

lemma hiccup_rel: "hiccuped cfg p s = Inr s' \<Longrightarrow> pipe_rel cfg s s'"
  by (rule pipe_relI [where es = "if immediate (opts s) = 1 then [Hiccuped_By p, Pipe_Terminate p False] else [Hiccuped_By p, Xhiccuped p]"])
    (auto simp: hiccuped_def split: if_splits)

subsection \<open>The monitor socket\<close>

text \<open>
  Replayed as open or closed: it is opened only when closed, and written to and closed only
  when open.
\<close>

fun mon_step :: "effect \<Rightarrow> bool \<Rightarrow> bool option" where
  "mon_step (Mon_Open a) up = (if up then None else Some True)"
| "mon_step (Mon_Send fs) up = (if up then Some True else None)"
| "mon_step Mon_Close up = (if up then Some False else None)"
| "mon_step e up = Some up"

fun mon_track :: "effect list \<Rightarrow> bool \<Rightarrow> bool option" where
  "mon_track [] up = Some up"
| "mon_track (e # es) up = Option.bind (mon_step e up) (mon_track es)"

lemma mon_track_append [simp]: "mon_track (es @ fs) up = Option.bind (mon_track es up) (mon_track fs)"
proof (induction es arbitrary: up)
  case (Cons e es)
  then show ?case by (cases "mon_step e up") auto
qed simp

text \<open>
  What the functions of the monitor do, and nothing else: \<open>about_monitor\<close> are their effects.
\<close>

fun about_monitor :: "effect \<Rightarrow> bool" where
  "about_monitor (Mon_Open a) = True"
| "about_monitor (Mon_Send fs) = True"
| "about_monitor Mon_Close = True"
| "about_monitor e = False"

definition mon_rel :: "socket \<Rightarrow> socket \<Rightarrow> bool" where
  "mon_rel s s' \<longleftrightarrow> pipes s' = pipes s \<and> inprocs s' = inprocs s \<and> ctx_terminated s' = ctx_terminated s \<and> destroyed s' = destroyed s
     \<and> (mon_socket s' \<longrightarrow> mon_socket s \<or> \<not> ctx_terminated s)
     \<and> (\<exists>es. log s' = log s @ es \<and> list_all about_monitor es \<and> mon_track es (mon_socket s) = Some (mon_socket s'))"

lemma mon_relI:
  assumes "pipes s' = pipes s" "inprocs s' = inprocs s" "ctx_terminated s' = ctx_terminated s" "destroyed s' = destroyed s"
    "mon_socket s' \<longrightarrow> mon_socket s \<or> \<not> ctx_terminated s"
    "log s' = log s @ es" "list_all about_monitor es" "mon_track es (mon_socket s) = Some (mon_socket s')"
  shows "mon_rel s s'"
  using assms unfolding mon_rel_def by blast

lemma mon_rel_trans:
  assumes "mon_rel s s1" "mon_rel s1 s2"
  shows "mon_rel s s2"
proof -
  from assms obtain es fs where "log s1 = log s @ es" "log s2 = log s1 @ fs" "list_all about_monitor (es @ fs)"
    "mon_track es (mon_socket s) = Some (mon_socket s1)" "mon_track fs (mon_socket s1) = Some (mon_socket s2)"
    by (auto simp: mon_rel_def)
  with assms show ?thesis by (intro mon_relI [of _ _ "es @ fs"]) (auto simp: mon_rel_def)
qed

lemma mon_rel_refl: "mon_rel s s"
  by (rule mon_relI [where es = "[]"]) auto

lemma event_mon: "mon_rel s (socket_event bytes value type s)"
  by (rule mon_relI [where es = "if mon_events s AND type \<noteq> 0 \<and> mon_socket s then [Mon_Send [monitor_frame type value, bytes]] else []"])
    (auto simp: socket_event_def monitor_event_def)

lemma stop_mon: "mon_rel s (stop_monitor b s)" "\<not> mon_socket (stop_monitor b s)"
  "ctx_terminated (stop_monitor b s) = ctx_terminated s"
  by (rule mon_relI [where es = "if mon_socket s then (if mon_events s AND ZMQ_EVENT_MONITOR_STOPPED \<noteq> 0 \<and> b
        then [Mon_Send [monitor_frame ZMQ_EVENT_MONITOR_STOPPED 0, []]] else []) @ [Mon_Close] else []"])
    (auto simp: stop_monitor_def monitor_event_def Let_def)

lemma monitor_mon: "mon_rel s (snd (socket_monitor cfg i a events s))"
proof -
  define s1 where "s1 = (stop_monitor True s)\<lparr>mon_events := events\<rparr>"
  have s1: "mon_rel s s1" "\<not> mon_socket s1" "ctx_terminated s1 = ctx_terminated s"
    using stop_mon [where b = True and s = s] by (auto simp: s1_def mon_rel_def)
  define s2 where "s2 addr = (emit (Mon_Open addr) s1)\<lparr>mon_socket := True\<rparr>" for addr
  have s2: "mon_rel s (s2 addr)" if "\<not> ctx_terminated s" for addr
    by (rule mon_rel_trans [OF s1(1)], rule mon_relI [where es = "[Mon_Open addr]"])
      (use that s1 in \<open>auto simp: s2_def\<close>)
  have s3: "mon_rel s (stop_monitor False (s2 addr))" if "\<not> ctx_terminated s" for addr
    by (rule mon_rel_trans [OF s2 [OF that] stop_mon(1)])
  show ?thesis
    unfolding socket_monitor_def Let_def s1_def [symmetric] s2_def [symmetric]
    using s1(1) s2 s3 mon_rel_refl stop_mon(1) by (auto split: option.splits sum.splits)
qed

section \<open>All operations respect them\<close>

lemma about_monitor_step: "about_monitor e \<Longrightarrow> attach_step e L = L \<and> allowed e L"
  by (cases e) auto

lemma mon_rel_pipes: "mon_rel s s' \<Longrightarrow> pipe_rel cfg s s'"
proof -
  have "list_all about_monitor es \<Longrightarrow> attached es L = L \<and> uses_attached es L" for es L
    by (induction es) (auto simp: about_monitor_step)
  then show "mon_rel s s' \<Longrightarrow> pipe_rel cfg s s'"
    by (auto simp: mon_rel_def pipe_rel_def socket_wf_def)
qed

lemma stop_rel: "pipe_rel cfg s (process_stop cfg s)"
  using mon_rel_pipes [OF stop_mon(1), of cfg s "stopped_default cfg"]
  by (simp add: process_stop_def pipe_rel_def socket_wf_def)

lemma terminate_rel: "pipe_rel cfg s (process_term linger s)"
  by (rule pipe_relI, simp add: process_term_def) (auto simp: process_term_def uses_terminate)

lemma hwms_rel: "pipe_rel cfg s (update_pipe_options option s)"
  by (rule pipe_relI [where es = "if option = SNDHWM \<or> option = RCVHWM then
        concat (map (\<lambda>p. [Pipe_Set_Hwms p (rcvhwm (opts s)) (sndhwm (opts s)),
          Pipe_Send_Hwms p (sndhwm (opts s)) (rcvhwm (opts s))]) (pipes s)) else []"])
    (auto simp: update_pipe_options_def uses_hwms)

lemma disconnect_rel:
  assumes "term_parsed cfg addr i s = (rc, s')"
  shows "pipe_rel cfg s s'"
proof -
  have unreg: "pipe_rel cfg s (emit (Unregister_Endpoint addr) s)" by (rule quiet_rel) auto
  have inproc: "pipe_rel cfg s ((emits (Unregister_Endpoint addr # map (\<lambda>p. Pipe_Terminate p True) (mm_range addr (inprocs s))) s)
                          \<lparr>inprocs := mm_erase addr (inprocs s)\<rparr>)" (is "pipe_rel cfg s ?s'")
  proof (rule pipe_relI)
    show "log ?s' = log s @ (Unregister_Endpoint addr # map (\<lambda>p. Pipe_Terminate p True) (mm_range addr (inprocs s)))"
      by simp
    assume "socket_wf s"
    moreover have "set (mm_range addr (inprocs s)) \<subseteq> snd ` set (inprocs s)" by (auto simp: mm_range_def)
    moreover have "distinct (map snd (mm_erase addr (inprocs s)))" if "distinct (map snd (inprocs s))"
      using that by (simp add: mm_erase_def distinct_map_filter)
    moreover have "set (mm_erase addr (inprocs s)) \<subseteq> set (inprocs s)" by (auto simp: mm_erase_def)
    ultimately show "socket_wf ?s' \<and> uses_attached (Unregister_Endpoint addr # map (\<lambda>p. Pipe_Terminate p True) (mm_range addr (inprocs s))) (set (pipes s))
      \<and> set (pipes ?s') = attached (Unregister_Endpoint addr # map (\<lambda>p. Pipe_Terminate p True) (mm_range addr (inprocs s))) (set (pipes s))"
      by (fastforce simp: socket_wf_def uses_terminate)
  qed
  have other: "pipe_rel cfg s ((emits (map (\<lambda>p. Pipe_Terminate p False) ps @ map (\<lambda>e. Term_Child (fst e)) rng) s)
                          \<lparr>endpoints := m\<rparr>)" if "set ps \<subseteq> set (pipes s)" for ps m and rng :: "(nat \<times> nat option) list"
  proof (rule pipe_relI)
    have "list_all plain (map (\<lambda>e. Term_Child (fst e)) rng)" by (simp add: list_all_iff)
    from plain_replay [OF this] show "socket_wf ((emits (map (\<lambda>p. Pipe_Terminate p False) ps @ map (\<lambda>e. Term_Child (fst e)) rng) s) \<lparr>endpoints := m\<rparr>)
      \<and> uses_attached (map (\<lambda>p. Pipe_Terminate p False) ps @ map (\<lambda>e. Term_Child (fst e)) rng) (set (pipes s))
      \<and> set (pipes ((emits (map (\<lambda>p. Pipe_Terminate p False) ps @ map (\<lambda>e. Term_Child (fst e)) rng) s) \<lparr>endpoints := m\<rparr>))
        = attached (map (\<lambda>p. Pipe_Terminate p False) ps @ map (\<lambda>e. Term_Child (fst e)) rng) (set (pipes s))"
      if "socket_wf s"
      using that \<open>set ps \<subseteq> set (pipes s)\<close> by (simp add: socket_wf_def uses_terminate)
  qed simp
  have refl: "pipe_rel cfg s s" by (rule quiet_rel) (simp add: same_view_def)
  show ?thesis
    using assms unreg inproc refl other [OF set_terminate_pipes]
    by (auto simp: term_parsed_def Let_def split: sum.splits if_splits)
qed

interpretation pipe_safe: socket_life cfg "pipe_rel cfg"
  by (unfold_locales; (erule (1) pipe_rel_trans | erule quiet_rel | erule hiccup_rel | erule disconnect_rel | erule ends_rel
      | rule attach_rel remember_rel gone_rel stop_rel terminate_rel hwms_rel destroy_rel
        mon_rel_pipes [OF monitor_mon] mon_rel_pipes [OF event_mon]))

text \<open>
  The second relation: the monitor socket is used as it must be, the flag for the end of the
  context stays set, and with it set there is no monitor.
\<close>

definition closed_when_stopped :: "socket \<Rightarrow> bool" where
  "closed_when_stopped s \<longleftrightarrow> (ctx_terminated s \<longrightarrow> \<not> mon_socket s)"

definition watch_rel :: "socket \<Rightarrow> socket \<Rightarrow> bool" where
  "watch_rel s s' \<longleftrightarrow> (ctx_terminated s \<longrightarrow> ctx_terminated s') \<and> (closed_when_stopped s \<longrightarrow> closed_when_stopped s')
     \<and> (\<exists>es. log s' = log s @ es \<and> mon_track es (mon_socket s) = Some (mon_socket s'))"

lemma watch_rel_trans:
  assumes "watch_rel s s1" "watch_rel s1 s2"
  shows "watch_rel s s2"
proof -
  from assms obtain es fs where "log s1 = log s @ es" "log s2 = log s1 @ fs"
    "mon_track es (mon_socket s) = Some (mon_socket s1)" "mon_track fs (mon_socket s1) = Some (mon_socket s2)"
    unfolding watch_rel_def by blast
  then have "log s2 = log s @ (es @ fs) \<and> mon_track (es @ fs) (mon_socket s) = Some (mon_socket s2)" by simp
  with assms show ?thesis unfolding watch_rel_def by blast
qed

lemma mon_track_other: "list_all (\<lambda>e. \<not> about_monitor e) es \<Longrightarrow> mon_track es up = Some up"
proof (induction es arbitrary: up)
  case (Cons e es)
  then have "mon_step e up = Some up" by (cases e) auto
  with Cons show ?case by simp
qed simp

lemma mon_rel_watch: "mon_rel s s' \<Longrightarrow> watch_rel s s'"
  by (auto simp: mon_rel_def watch_rel_def closed_when_stopped_def)

lemma stop_watch: "watch_rel s (process_stop cfg s)"
  using stop_mon(1) [of s "stopped_default cfg"] stop_mon(2) [of "stopped_default cfg" s]
  by (auto simp: mon_rel_def watch_rel_def closed_when_stopped_def process_stop_def)

text \<open>
  The third: a socket that is in use does nothing that belongs to its end, and stays
  destroyed once it is.
\<close>

definition alive_rel :: "socket \<Rightarrow> socket \<Rightarrow> bool" where
  "alive_rel s s' \<longleftrightarrow> (destroyed s \<longrightarrow> destroyed s') \<and> (\<exists>es. log s' = log s @ es \<and> list_all (\<lambda>e. \<not> ending e) es)"

lemma alive_rel_trans: "alive_rel s s1 \<Longrightarrow> alive_rel s1 s2 \<Longrightarrow> alive_rel s s2"
  by (fastforce simp: alive_rel_def)

lemma mon_rel_alive: "mon_rel s s' \<Longrightarrow> alive_rel s s'"
proof -
  have "about_monitor e \<Longrightarrow> \<not> ending e" for e by (cases e) auto
  then show "mon_rel s s' \<Longrightarrow> alive_rel s s'" by (fastforce simp: mon_rel_def alive_rel_def list_all_iff)
qed

lemma stop_alive: "alive_rel s (process_stop cfg s)"
  using mon_rel_alive [OF stop_mon(1), of s "stopped_default cfg"] by (simp add: process_stop_def alive_rel_def)

text \<open>Most functions concern neither the monitor nor the end of the socket.\<close>

fun steady_effect :: "effect \<Rightarrow> bool" where
  "steady_effect e \<longleftrightarrow> \<not> about_monitor e \<and> \<not> ending e"

definition steady :: "socket \<Rightarrow> socket \<Rightarrow> bool" where
  "steady s s' \<longleftrightarrow> mon_socket s' = mon_socket s \<and> ctx_terminated s' = ctx_terminated s \<and> destroyed s' = destroyed s
     \<and> (\<exists>es. log s' = log s @ es \<and> list_all steady_effect es)"

lemma steadyI:
  assumes "log s' = log s @ es" "list_all steady_effect es" "mon_socket s' = mon_socket s"
    "ctx_terminated s' = ctx_terminated s" "destroyed s' = destroyed s"
  shows "steady s s'"
  using assms by (auto simp: steady_def)

lemma steady_watch: "steady s s' \<Longrightarrow> watch_rel s s'"
  using mon_track_other by (fastforce simp: steady_def watch_rel_def closed_when_stopped_def list_all_iff)

lemma steady_alive: "steady s s' \<Longrightarrow> alive_rel s s'"
  by (fastforce simp: steady_def alive_rel_def list_all_iff)

lemma quiet_steady: "same_view s s' \<Longrightarrow> steady s s'"
proof -
  have "plain e \<Longrightarrow> steady_effect e" for e by (cases e) auto
  then show "same_view s s' \<Longrightarrow> steady s s'" by (fastforce simp: same_view_def steady_def list_all_iff)
qed

lemma attach_steady: "steady s (attach_pipe cfg p b s)"
  by (rule steadyI [where es = "Xattach_Pipe p b # (if is_terminating cfg (log s @ [Xattach_Pipe p b])
        then [Register_Term_Acks 1, Pipe_Terminate p False] else [])"])
    (auto simp: attach_pipe_def Let_def)

lemma remember_steady: "steady s (remember_inproc cfg addr p s)"
  using attach_steady [of s cfg p False] by (simp add: remember_inproc_def steady_def)

lemma other_steady:
  "hiccuped cfg p s = Inr s' \<Longrightarrow> steady s s'"
  "steady s (pipe_terminated cfg p s)"
  "steady s (process_term linger s)"
  "steady s (update_pipe_options option s)"
proof -
  show "hiccuped cfg p s = Inr s' \<Longrightarrow> steady s s'"
    by (rule steadyI [where es = "if immediate (opts s) = 1 then [Hiccuped_By p, Pipe_Terminate p False] else [Hiccuped_By p, Xhiccuped p]"])
      (auto simp: hiccuped_def split: if_splits)
  show "steady s (pipe_terminated cfg p s)"
    by (rule steadyI [where es = "Xpipe_Terminated p # (if is_terminating cfg (log s @ [Xpipe_Terminated p]) then [Unregister_Term_Ack] else [])"])
      (auto simp: pipe_terminated_def Let_def)
  show "steady s (process_term linger s)"
    by (rule steadyI, simp add: process_term_def) (auto simp: process_term_def list_all_iff)
  show "steady s (update_pipe_options option s)"
    by (rule steadyI [where es = "if option = SNDHWM \<or> option = RCVHWM then
        concat (map (\<lambda>p. [Pipe_Set_Hwms p (rcvhwm (opts s)) (sndhwm (opts s)),
          Pipe_Send_Hwms p (sndhwm (opts s)) (rcvhwm (opts s))]) (pipes s)) else []"])
      (auto simp: update_pipe_options_def list_all_iff)
qed

lemma disconnect_steady: "term_parsed cfg addr i s = (rc, s') \<Longrightarrow> steady s s'"
proof -
  assume t: "term_parsed cfg addr i s = (rc, s')"
  have "\<exists>es. log s' = log s @ es \<and> list_all steady_effect es"
    using t by (auto simp: term_parsed_def Let_def list_all_iff split: sum.splits if_splits)
  moreover have "mon_socket s' = mon_socket s \<and> ctx_terminated s' = ctx_terminated s \<and> destroyed s' = destroyed s"
    using t by (auto simp: term_parsed_def Let_def split: sum.splits if_splits)
  ultimately show "steady s s'" by (auto intro: steadyI)
qed

lemmas steady_ops = attach_steady remember_steady other_steady(2-4)

lemma ends_watch: "list_all ending es \<Longrightarrow> watch_rel s (emits es (s\<lparr>tag := t\<rparr>))"
proof -
  assume "list_all ending es"
  then have "list_all (\<lambda>e. \<not> about_monitor e) es"
    by (rule list.pred_mono_strong) (auto elim: about_monitor.elims)
  from mon_track_other [OF this] show ?thesis by (simp add: watch_rel_def closed_when_stopped_def)
qed

lemma destroy_watch: "watch_rel s (process_destroy s)" "alive_rel s (process_destroy s)"
  by (simp_all add: watch_rel_def alive_rel_def closed_when_stopped_def process_destroy_def)

interpretation watched: socket_life cfg watch_rel
  by (unfold_locales; (erule (1) watch_rel_trans | erule steady_watch [OF quiet_steady] | erule steady_watch [OF other_steady(1)]
      | erule steady_watch [OF disconnect_steady] | erule ends_watch
      | rule steady_ops [THEN steady_watch] stop_watch destroy_watch
        mon_rel_watch [OF monitor_mon] mon_rel_watch [OF event_mon]))

interpretation alive: socket_relation cfg alive_rel
  by (unfold_locales; (erule (1) alive_rel_trans | erule steady_alive [OF quiet_steady] | erule steady_alive [OF other_steady(1)]
      | erule steady_alive [OF disconnect_steady]
      | rule steady_ops [THEN steady_alive] stop_alive destroy_watch
        mon_rel_alive [OF monitor_mon] mon_rel_alive [OF event_mon]))

end
