(* ===== verification/Socket_Guarantees.thy ===== *)
theory Socket_Guarantees
  imports Socket_Properties
begin

section \<open>What the socket guarantees\<close>

text \<open>
  The properties of socket_base.cpp, over the runs of Socket_Run. Witnesses use one
  configuration and a DEALER socket that connects over TCP.
\<close>

definition demo_cfg :: config where
  "demo_cfg = \<lparr>max_command_delay = 3000000, inbound_poll_rate = 100, have_ipc = True, have_openpgm = False,
     have_tipc = False, have_norm = False, have_vmci = False, thread_safe_kind = (\<lambda>k. k = ZMQ_SERVER \<or> k = ZMQ_CLIENT),
     hears_reads = True, hears_writes = True, hears_hiccups = True, stopped_default = True,
     array_erase = remove1, is_terminating = list_ex (\<lambda>e. case e of Own_Process_Term l \<Rightarrow> True | _ \<Rightarrow> False)\<rparr>"

definition demo_options :: options where
  "demo_options = \<lparr>otype = ZMQ_DEALER, sndhwm = 1000, rcvhwm = 1000, conflate = False, immediate = 0,
     sndtimeo = -1, rcvtimeo = -1, recv_routing_id = False, routing_id = [], opt_connected = False,
     opt_linger = -1, ipv6 = False\<rparr>"

definition demo_socket :: "socket" where
  "demo_socket = socket_base_t demo_cfg demo_options True False ZMQ_DEALER"

definition no_commands :: batch where
  "no_commands = Batch 0 [] EAGAIN"

definition demo_connect :: connect_in where
  "demo_connect = \<lparr>ci_batch = no_commands, peer = None, peer_options = demo_options, new_pipes = Some (1, 2),
     id_written = True, io_thread = True, ipc_resolved = None, udp_resolved = None, pgm_checked = None,
     tipc_resolved = None, tipc_random = False, vmci_resolved = None, session = Some 7, resolved_name = ''tcp://h:1''\<rparr>"

definition demo_term :: term_in where
  "demo_term = \<lparr>unregistered = False, resolved = None, resolved_local = None\<rparr>"

lemma demo_erases: "erases demo_cfg"
  by (auto simp: erases_def demo_cfg_def)

subsection \<open>Pipes\<close>

text \<open>
  C5. Pipes. Whatever is asked of a socket and whatever commands it processes in between, it
  calls only pipes that are attached to it, as long as its pipes report only while they are
  attached; a pipe that has terminated is not called again. Its lists stay consistent: no
  pipe is attached twice, and every in-process connection has an attached pipe of its own.
\<close>

theorem socket_calls_attached_pipes:
  assumes "erases cfg" "run_ops cfg ops (socket_base_t cfg opt0 blocky v6 k) = Inr s" "pipes_behave (log s) {}"
  shows "uses_attached (log s) {} \<and> set (pipes s) = attached (log s) {} \<and> distinct (pipes s)
    \<and> distinct (map snd (inprocs s)) \<and> snd ` set (inprocs s) \<subseteq> set (pipes s)"
proof -
  let ?s0 = "socket_base_t cfg opt0 blocky v6 k"
  have "pipes ?s0 = []" "inprocs ?s0 = []" "log ?s0 = []" by (simp_all add: socket_base_t_def)
  with pipe_safe.run_keeps [OF assms(2)] assms(1,3) show ?thesis
    by (auto simp: pipe_rel_def socket_wf_def)
qed

text \<open>
  A socket connects, its pipe terminates on its own, and the endpoint is disconnected
  afterwards: the pipe is not called again.
\<close>

definition demo_ops :: "sock_op list" where
  "demo_ops = [Op_Connect demo_connect ''tcp://h:1'',
     Op_Term_Endpoint (Batch 0 [Pipe_Term_Ack 1] EAGAIN) (Some ''tcp://h:1'') demo_term]"

lemma socket_demo_run: "map_sum id log (run_ops demo_cfg demo_ops demo_socket) =
    Inr [Mailbox_Read, Pipepair 1 2 1000 1000 False, Xattach_Pipe 1 False, Session_Attach 7 2, Launch_Child 7,
      Mailbox_Read, Xpipe_Terminated 1, Term_Child 7]"
  by code_simp

theorem socket_calls_attached_pipes_witness:
  "\<exists>s. run_ops demo_cfg demo_ops demo_socket = Inr s \<and> pipes_behave (log s) {} \<and> uses_attached (log s) {}"
proof -
  obtain s where s: "run_ops demo_cfg demo_ops demo_socket = Inr s"
    "log s = [Mailbox_Read, Pipepair 1 2 1000 1000 False, Xattach_Pipe 1 False, Session_Attach 7 2, Launch_Child 7,
      Mailbox_Read, Xpipe_Terminated 1, Term_Child 7]"
    using socket_demo_run by (cases "run_ops demo_cfg demo_ops demo_socket") auto
  then have "pipes_behave (log s) {}" by simp
  with socket_calls_attached_pipes [OF demo_erases s(1) [unfolded demo_socket_def]] s(1) show ?thesis by blast
qed

subsection \<open>Disconnecting\<close>

text \<open>
  C8. Disconnecting. For an address other than an in-process one that has endpoints, it
  terminates exactly those of their pipes that are still attached, each once and in the
  order of attachment, then each session or listener; the loop's counter, which would end it
  early, has no effect. The endpoints are gone after it, the others stay.
\<close>

theorem term_endpoint_terminates:
  assumes "distinct (pipes s)" "parse_addr cfg (otype (opts s)) addr = Inr (protocol, address)" "protocol \<noteq> ''inproc''"
    and "mm_range (resolve_key i protocol addr s) (endpoints s) \<noteq> []"
  shows "\<exists>s'. term_parsed cfg addr i s = (None, s')
    \<and> (let key = resolve_key i protocol addr s; rng = mm_range key (endpoints s) in
        log s' = log s @ map (\<lambda>p. Pipe_Terminate p False) (filter (\<lambda>p. \<exists>c. (c, Some p) \<in> set rng) (pipes s))
                 @ map (\<lambda>e. Term_Child (fst e)) rng
        \<and> (\<forall>a. mm_range a (endpoints s') = (if a = key then [] else mm_range a (endpoints s)))
        \<and> pipes s' = pipes s)"
  using assms by (simp add: term_parsed_def Let_def terminate_pipes_all)

text \<open>The state in which the demonstration disconnects, but with the pipe still attached.\<close>

definition demo_connected :: "socket" where
  "demo_connected = demo_socket\<lparr>pipes := [3, 1], endpoints := [(''tcp://h:1'', 7, Some 1), (''tcp://h:1'', 8, None)]\<rparr>"

theorem term_endpoint_terminates_witness:
  "\<exists>s'. term_parsed demo_cfg ''tcp://h:1'' demo_term demo_connected = (None, s')
     \<and> log s' = [Pipe_Terminate 1 False, Term_Child 7, Term_Child 8]"
proof -
  have a: "distinct (pipes demo_connected)" "log demo_connected = []" by code_simp+
  have b: "parse_addr demo_cfg (otype (opts demo_connected)) ''tcp://h:1'' = Inr (''tcp'', ''h:1'')" by code_simp
  have c: "mm_range (resolve_key demo_term ''tcp'' ''tcp://h:1'' demo_connected) (endpoints demo_connected) = [(7, Some 1), (8, None)]"
    by code_simp
  have d: "filter (\<lambda>p. \<exists>c. (c, Some p) \<in> set [(7 :: nat, Some 1), (8, None)]) (pipes demo_connected) = [1]"
    by (simp add: demo_connected_def)
  from term_endpoint_terminates [OF a(1) b, of demo_term] c d a(2) show ?thesis by (auto simp: Let_def)
qed

text \<open>
  C24. Connecting and disconnecting again. After a connect over a transport with sessions that
  found no endpoint of the same address, a disconnect of that address undoes it: it ends
  the one new session and its pipe, and the endpoints are as they were.
\<close>

lemma process_none [simp]: "process_commands cfg t b (Batch 0 [] EAGAIN) s =
    Inr (if ctx_terminated s then Some ETERM else None, emit Mailbox_Read s)"
  by (simp add: throttled_def note_tsc_def end_commands_def)

lemma mm_erase_insert: "k \<notin> fst ` set m \<Longrightarrow> mm_erase k (mm_insert k v m) = m"
proof (induction k v m rule: mm_insert.induct)
  case (2 k v k' v' m)
  then have "filter (\<lambda>(a, _). a \<noteq> k) m = m" by (force simp: filter_id_conv)
  with 2 show ?case by (auto simp: mm_erase_def)
qed (simp add: mm_erase_def)

lemma mm_range_new: "k \<notin> fst ` set m \<Longrightarrow> mm_range k (mm_insert k v m) = [v]"
proof (induction k v m rule: mm_insert.induct)
  case (2 k v k' v' m)
  then have "filter (\<lambda>(a, _). a = k) m = []" by (force simp: filter_empty_conv)
  with 2 show ?case by (auto simp: mm_range_def)
qed (simp add: mm_range_def)

theorem connect_then_disconnect:
  assumes "connect cfg i addr s = Inr (None, s1)" "ci_batch i = Batch 0 [] EAGAIN" "new_pipes i = Some (a, b)" "session i = Some ses"
    and "parse_addr cfg (otype (opts s)) addr = Inr (protocol, address)" "protocol \<noteq> ''inproc''"
    and "immediate (opts s) \<noteq> 1" "addr \<notin> fst ` set (endpoints s)" "distinct (pipes s)" "a \<notin> set (pipes s)"
  shows "\<exists>s2. term_endpoint cfg (Batch 0 [] EAGAIN) (Some addr) t s1 = Inr (None, s2)
    \<and> log s2 = log s1 @ [Mailbox_Read, Pipe_Terminate a False, Term_Child ses] \<and> endpoints s2 = endpoints s
    \<and> pipes s1 = pipes s @ [a]"
proof -
  from assms(1,2) have live: "\<not> ctx_terminated s" by (auto simp: connect_def)
  with assms(1,2,5,6) have "connect_session cfg i addr protocol address (emit Mailbox_Read s) = Inr (None, s1)"
    by (auto simp: connect_def simp del: process_commands.simps)
  with assms(3,4,7,8) have s1: "pipes s1 = pipes s @ [a]" "endpoints s1 = mm_insert addr (ses, Some a) (endpoints s)"
    "opts s1 = opts s" "\<not> ctx_terminated s1"
    using live by (auto simp: connect_session_def session_pipe_def add_endpoint_def attach_pipe_def Let_def
        split: if_splits option.splits)
  let ?s1 = "emit Mailbox_Read s1"
  have key: "resolve_key t protocol addr ?s1 = addr" by (simp add: resolve_key_def s1(2))
  have "terminate_pipes (pipes_to_terminate [(ses, Some a)]) (pipes ?s1) 0 = [a]"
    using assms(9,10) by (subst terminate_pipes_all) (auto simp: s1(1) filter_empty_conv)
  then have "term_parsed cfg addr t ?s1 = (None, (emits [Pipe_Terminate a False, Term_Child ses] ?s1)\<lparr>endpoints := endpoints s\<rparr>)"
    using assms(5,6,8) by (simp add: term_parsed_def Let_def key s1(3)) (simp add: s1(2) mm_range_new mm_erase_insert)
  with s1(1,4) show ?thesis by (simp add: term_endpoint_def term_endpoint_with_def del: process_commands.simps)
qed

lemma demo_connects: "map_sum id fst (connect demo_cfg demo_connect ''tcp://h:1'' demo_socket) = Inr None"
  by code_simp

theorem connect_then_disconnect_witness:
  "\<exists>s1 s2. connect demo_cfg demo_connect ''tcp://h:1'' demo_socket = Inr (None, s1)
     \<and> term_endpoint demo_cfg (Batch 0 [] EAGAIN) (Some ''tcp://h:1'') demo_term s1 = Inr (None, s2)
     \<and> endpoints s2 = endpoints demo_socket"
proof -
  obtain s1 where s1: "connect demo_cfg demo_connect ''tcp://h:1'' demo_socket = Inr (None, s1)"
    using demo_connects by (cases "connect demo_cfg demo_connect ''tcp://h:1'' demo_socket") auto
  have b: "parse_addr demo_cfg (otype (opts demo_socket)) ''tcp://h:1'' = Inr (''tcp'', ''h:1'')" by code_simp
  have c: "immediate (opts demo_socket) \<noteq> 1" "endpoints demo_socket = []" "pipes demo_socket = []" by code_simp+
  show ?thesis
    using connect_then_disconnect [OF s1 _ _ _ b, of 1 2 7 demo_term] c s1
    by (auto simp: demo_connect_def no_commands_def)
qed

subsection \<open>The monitor\<close>

text \<open>
  C25. Events reported and read. An event the monitor asked for is sent as one message, which
  the monitor threads of the programs (3186/monitor.cpp) read back: the same event, value and
  address, for every value an \<^verbatim>\<open>int\<close> has and every address their buffer holds.
\<close>

theorem reported_event_is_read:
  assumes "mon_socket s" "mon_events s AND t \<noteq> 0" "0 \<le> t" "t < 2 ^ 16" "- (2 ^ 31) \<le> v" "v < 2 ^ 31"
    and "0 \<notin> set addr" "length addr \<le> ZMQ_MAX_ENDPOINT_LENGTH"
  shows "\<exists>f1 f2. log (socket_event addr v t s) = log s @ [Mon_Send [f1, f2]]
    \<and> monitorEvent (Some (f1, True)) (Some (f2, False)) name =
        Inr (0, [\<lparr>log_name = name, log_value = v, log_event = t, log_desc = get_zmqEventName t, log_endpoint = addr\<rparr>])"
proof -
  let ?e = "\<lparr>ev_event = word_of_int t, ev_value = word_of_int v, ev_addr = addr\<rparr>"
  have "sint (word_of_int v :: u32) = v" using assms(5,6) by (simp add: sint_sbintrunc' signed_take_bit_int_eq_self)
  moreover have "uint (word_of_int t :: u16) = t" using assms(3,4) by (simp add: uint_word_of_int)
  moreover have "event1_ok ?e" using assms(7,8) by (simp add: event1_ok_def)
  from monitorEvent_logs [OF this, of name]
  have "monitorEvent (Some (monitor_frame t v, True)) (Some (addr, False)) name = Inr (0, [event1_log name ?e])"
    by (simp add: event1_frames_def monitor_frame_def)
  ultimately show ?thesis
    using assms(1,2) by (simp add: socket_event_def monitor_event_def event1_log_def)
qed

theorem reported_event_is_read_witness:
  "\<exists>f1 f2. log (socket_event [116, 99, 112] (-1) 16 (demo_socket\<lparr>mon_socket := True, mon_events := 0xFFFF\<rparr>)) = [Mon_Send [f1, f2]]
     \<and> monitorEvent (Some (f1, True)) (Some (f2, False)) ''dataPub'' =
         Inr (0, [\<lparr>log_name = ''dataPub'', log_value = -1, log_event = 16, log_desc = ''BIND_FAILED'', log_endpoint = [116, 99, 112]\<rparr>])"
proof -
  let ?s = "demo_socket\<lparr>mon_socket := True, mon_events := 0xFFFF\<rparr>"
  have "mon_socket ?s" "mon_events ?s AND 16 \<noteq> 0" "log ?s = []" by code_simp+
  moreover have "get_zmqEventName 16 = ''BIND_FAILED''" by code_simp
  ultimately show ?thesis
    using reported_event_is_read [of ?s 16 "-1" "[116, 99, 112]" "''dataPub''"]
    by (simp add: ZMQ_MAX_ENDPOINT_LENGTH_def)
qed

lemma delete_monitor:
  assumes "delete_socket cfg s = Inr s'" "mon_track (log s) False = Some (mon_socket s)"
  shows "\<not> mon_socket s' \<and> mon_track (log s') False = Some False"
proof -
  have s': "s' = stop_monitor (stopped_default cfg) s"
    using assms(1) by (simp add: delete_socket_def Let_def split: if_splits)
  show ?thesis
    using assms(2)
    by (auto simp: s' stop_monitor_def monitor_event_def Let_def mon_track_append split: if_splits)
qed

text \<open>
  C12. The monitor socket. In every run of a socket it is opened only while there is none, and
  written to and closed only while there is one; a socket whose context has been terminated
  has none left open, and neither has one that is deleted, which goes through for every
  socket that has been destroyed.
\<close>

theorem monitor_socket_used_open:
  assumes "run_ops cfg ops (socket_base_t cfg opt0 blocky v6 k) = Inr s"
  shows "mon_track (log s) False = Some (mon_socket s) \<and> (ctx_terminated s \<longrightarrow> \<not> mon_socket s)
    \<and> (destroyed s \<longrightarrow> (\<exists>s'. delete_socket cfg s = Inr s' \<and> mon_track (log s') False = Some False))"
proof -
  have "log (socket_base_t cfg opt0 blocky v6 k) = []" "\<not> mon_socket (socket_base_t cfg opt0 blocky v6 k)"
    "\<not> ctx_terminated (socket_base_t cfg opt0 blocky v6 k)"
    by (simp_all add: socket_base_t_def)
  with watched.run_keeps [OF assms]
  have track: "mon_track (log s) False = Some (mon_socket s)" "ctx_terminated s \<longrightarrow> \<not> mon_socket s"
    by (auto simp: watch_rel_def closed_when_stopped_def)
  have "\<exists>s'. delete_socket cfg s = Inr s'" if "destroyed s"
    using that by (auto simp: delete_socket_def stop_monitor_def monitor_event_def Let_def)
  with track delete_monitor [OF _ track(1)] show ?thesis by blast
qed

text \<open>Monitored twice, an event in between, and stopped by a command.\<close>

definition demo_monitor :: monitor_in where
  "demo_monitor = \<lparr>made = None, linger_set = None, bound = None, null_bind = Some ENOTSOCK\<rparr>"

definition demo_monitor_ops :: "sock_op list" where
  "demo_monitor_ops = [Op_Monitor demo_monitor (Some ''inproc://m'') 0xFFFF, Op_Event [] 5 1,
     Op_Monitor demo_monitor (Some ''inproc://n'') 0xFFFF, Op_Send \<lparr>si_batch = Batch 0 [Stop] EAGAIN, si_first = None,
       si_now = 0, si_rounds = []\<rparr> (Some \<lparr>msg_more = False, is_routing_id = False, has_metadata = False\<rparr>) False False]"

lemma demo_monitor_run:
  "map_sum id (\<lambda>s. (ctx_terminated s, mon_socket s, map (\<lambda>e. case e of Mon_Open a \<Rightarrow> 1 | Mon_Send fs \<Rightarrow> 2 | Mon_Close \<Rightarrow> 3 | _ \<Rightarrow> 0) (log s)))
     (run_ops demo_cfg demo_monitor_ops demo_socket) = Inr (True, False, [1, 2, 2, 3, 1, 0, 2, 3 :: nat])"
  by code_simp

theorem monitor_socket_used_open_witness:
  "\<exists>s. run_ops demo_cfg demo_monitor_ops demo_socket = Inr s \<and> ctx_terminated s \<and> length (log s) = 8
     \<and> mon_track (log s) False = Some False"
proof -
  obtain s where s: "run_ops demo_cfg demo_monitor_ops demo_socket = Inr s" "ctx_terminated s" "\<not> mon_socket s"
    "map (\<lambda>e. case e of Mon_Open a \<Rightarrow> 1 | Mon_Send fs \<Rightarrow> 2 | Mon_Close \<Rightarrow> 3 | _ \<Rightarrow> 0) (log s) = [1, 2, 2, 3, 1, 0, 2, 3 :: nat]"
    using demo_monitor_run by (cases "run_ops demo_cfg demo_monitor_ops demo_socket") auto
  have "length (log s) = 8" using arg_cong [OF s(4), of length] by simp
  with monitor_socket_used_open [OF s(1) [unfolded demo_socket_def]] s(1,2,3) show ?thesis by auto
qed

subsection \<open>The end of the context\<close>

text \<open>
  After the end of the context. Once a socket has been told, every operation on it fails
  with ETERM and changes nothing, whatever is done with it in between.
\<close>

theorem stopped_socket_refuses:
  assumes "ctx_terminated s" "run_ops cfg ops s = Inr s'"
  shows "bind_socket cfg bi addr s' = Inr (Some ETERM, s') \<and> connect cfg ci addr s' = Inr (Some ETERM, s')
    \<and> term_endpoint cfg b (Some addr) t s' = Inr (Some ETERM, s')
    \<and> send_msg cfg si m dontwait sndmore s' = Inr (Some (Some ETERM), s')
    \<and> recv_msg cfg ri valid dontwait s' = Inr (Some (Some ETERM), s')
    \<and> set_option True x generic opt s' = (Some ETERM, s')
    \<and> get_option cfg b copied out inp opt s' = Inr ((Some ETERM, None), s')
    \<and> socket_monitor cfg mi (Some addr) events s' = (Some ETERM, s')"
proof -
  have "ctx_terminated s'" using watched.run_keeps [OF assms(2)] assms(1) by (simp add: watch_rel_def)
  then show ?thesis
    by (simp add: bind_socket_def connect_def term_endpoint_def term_endpoint_with_def send_msg_def recv_msg_def
        set_option_def get_option_def socket_monitor_def)
qed

theorem stopped_socket_refuses_witness:
  "\<exists>s'. run_ops demo_cfg [Op_Close, Op_In_Event (Batch 0 [Pipe_Term_Ack 1] EAGAIN)] (demo_socket\<lparr>ctx_terminated := True\<rparr>) = Inr s'
     \<and> connect demo_cfg demo_connect ''tcp://h:1'' s' = Inr (Some ETERM, s')"
proof -
  let ?ops = "[Op_Close, Op_In_Event (Batch 0 [Pipe_Term_Ack 1] EAGAIN)]"
  let ?s = "demo_socket\<lparr>ctx_terminated := True\<rparr>"
  have "map_sum id (\<lambda>s. True) (run_ops demo_cfg ?ops ?s) = Inr True" by code_simp
  then obtain s' where s': "run_ops demo_cfg ?ops ?s = Inr s'" by (cases "run_ops demo_cfg ?ops ?s") auto
  have "ctx_terminated ?s" by simp
  from stopped_socket_refuses [OF this s'] s' show ?thesis by blast
qed

text \<open>
  C30. A stop command interrupts a waiting call: when one is among the commands that a round
  of a blocking send or receive finds, the call ends in this round, without another
  attempt, with ETERM, or EINTR if receiving the commands was interrupted.
\<close>

lemma stop_processed: "process_list cfg cs s = Inr s' \<Longrightarrow> Stop \<in> set cs \<Longrightarrow> ctx_terminated s'"
proof (induction cs arbitrary: s)
  case (Cons c cs)
  then obtain s1 where s1: "process_command cfg c s = Inr s1" "process_list cfg cs s1 = Inr s'"
    by (auto simp: bind_res_Inr_iff)
  show ?case
  proof (cases "c = Stop")
    case True
    with s1(1) have "ctx_terminated s1" by (auto simp: process_stop_def)
    with watched.commands(2) [OF s1(2)] show ?thesis by (simp add: watch_rel_def)
  next
    case False
    with Cons s1(2) show ?thesis by auto
  qed
qed simp

theorem stop_interrupts_waiting:
  assumes "wait_loop cfg act end_ms ((Batch tsc cs e, tried, now) # rounds) block timeout s = Inr (rc, s')" "Stop \<in> set cs"
  shows "rc \<in> {Some (Some ETERM), Some (Some EINTR)} \<and> ctx_terminated s' \<and> process_list cfg cs (emit Mailbox_Read s) = Inr s'"
proof -
  have untouched: "\<not> throttled cfg t False tsc s" "note_tsc t False tsc s = s" for t
    by (simp_all add: throttled_def note_tsc_def)
  from assms(1) obtain s1 where s1: "process_list cfg cs (emit Mailbox_Read s) = Inr s1"
    by (auto simp: bind_res_Inr_iff untouched)
  have "ctx_terminated s1" using stop_processed [OF s1 assms(2)] .
  with assms(1) s1 show ?thesis
    by (cases "e = EINTR") (auto simp: bind_res_Inr_iff untouched end_commands_def split: if_splits)
qed

theorem stop_interrupts_waiting_witness:
  "\<exists>s'. wait_loop demo_cfg Xrecv 0 [(Batch 0 [Activate_Read 3, Stop] EAGAIN, None, 0)] True (-1) demo_socket = Inr (Some (Some ETERM), s')
     \<and> ctx_terminated s' \<and> log s' = [Mailbox_Read, Xread_Activated 3]"
proof -
  let ?w = "wait_loop demo_cfg Xrecv 0 [(Batch 0 [Activate_Read 3, Stop] EAGAIN, None, 0)] True (-1) demo_socket"
  have "map_sum id (\<lambda>(rc, s). (rc, log s)) ?w = Inr (Some (Some ETERM), [Mailbox_Read, Xread_Activated 3])" by code_simp
  then obtain s' where s': "?w = Inr (Some (Some ETERM), s')" "log s' = [Mailbox_Read, Xread_Activated 3]" by (cases ?w) auto
  from stop_interrupts_waiting [OF s'(1)] s' show ?thesis by auto
qed

subsection \<open>In-process connections\<close>



subsection \<open>Waiting\<close>

text \<open>
  C13. The time limit of a blocking call. On a clock that does not run backwards, a call with
  a time limit gives up with EAGAIN only when the limit has passed, and does not go on
  waiting in a round that finds it passed. Without a limit it never gives up.
\<close>

lemma commands_errno: "process_commands cfg timeout throttle b s = Inr (rc, s') \<Longrightarrow> rc \<in> {None, Some EINTR, Some ETERM}"
  by (cases b) (auto simp: bind_res_Inr_iff end_commands_def split: if_splits)

lemma cast_down: "ucast (word_of_int d :: u64) = (word_of_int d :: 32 word)"
  by (simp add: ucast_eq uint_word_of_int_eq wi_bintr)

lemma time_left_exact:
  assumes "0 < t" "t < 2 ^ 31" "uint now0 \<le> uint now" "uint now < uint now0 + 2 ^ 31"
  shows "time_left (deadline t now0) now = uint now0 + t - uint now"
proof -
  define d where "d = uint now0 + t - uint now"
  have "deadline t now0 - now = word_of_int d"
    using assms(1) by (simp add: deadline_def d_def)
  then have "time_left (deadline t now0) now = sint (word_of_int d :: 32 word)"
    by (simp only: time_left_def cast_down)
  also have "\<dots> = d"
  proof -
    have "- (2 ^ 31) \<le> d" "d < 2 ^ 31" using assms by (simp_all add: d_def)
    then show ?thesis by (simp add: sint_sbintrunc' signed_take_bit_int_eq_self)
  qed
  finally show ?thesis by (simp add: d_def)
qed

lemma wait_loop_step:
  "wait_loop cfg act end_ms ((b, tried, now) # rounds) block timeout s =
     bind_res (process_commands cfg (if block then timeout else 0) False b s) (\<lambda>(rc, s1).
       if rc \<noteq> None then Inr (Some rc, s1)
       else if tried \<noteq> Some EAGAIN then Inr (Some tried, emit act s1)
       else if timeout > 0 \<and> time_left end_ms now \<le> 0 then Inr (Some (Some EAGAIN), emit act s1)
       else wait_loop cfg act end_ms rounds True (if timeout > 0 then time_left end_ms now else timeout) (emit act s1))"
  by (cases tried) (auto simp: Let_def intro!: arg_cong [of _ _ "bind_res _"])

lemma wait_loop_time:
  assumes "0 < t" "t < 2 ^ 31" "\<And>r. r \<in> set rounds \<Longrightarrow> uint now0 \<le> uint (snd (snd r)) \<and> uint (snd (snd r)) < uint now0 + 2 ^ 31"
    and "0 < timeout" "wait_loop cfg act (deadline t now0) rounds block timeout s = Inr (rc, s')"
  shows "(rc = Some (Some EAGAIN) \<longrightarrow> (\<exists>r \<in> set rounds. uint now0 + t \<le> uint (snd (snd r))))
    \<and> (rc = None \<longrightarrow> (\<forall>r \<in> set rounds. uint (snd (snd r)) < uint now0 + t))"
  using assms(3-)
proof (induction rounds arbitrary: block timeout s)
  case Nil
  then show ?case by simp
next
  case (Cons r rounds)
  obtain b tried now where r: "r = (b, tried, now)" by (cases r) auto
  have left: "time_left (deadline t now0) now = uint now0 + t - uint now"
    using Cons.prems(1) [of r] assms(1,2) by (intro time_left_exact) (simp_all add: r)
  from Cons.prems(3) obtain rc1 s1 where
    p: "process_commands cfg (if block then timeout else 0) False b s = Inr (rc1, s1)"
    and k: "(if rc1 \<noteq> None then Inr (Some rc1, s1)
       else if tried \<noteq> Some EAGAIN then Inr (Some tried, emit act s1)
       else if timeout > 0 \<and> time_left (deadline t now0) now \<le> 0 then Inr (Some (Some EAGAIN), emit act s1)
       else wait_loop cfg act (deadline t now0) rounds True
         (if timeout > 0 then time_left (deadline t now0) now else timeout) (emit act s1)) = Inr (rc, s')"
    unfolding r wait_loop_step bind_res_Inr_iff by auto
  from commands_errno [OF p] have "rc1 \<noteq> Some EAGAIN" by auto
  show ?case
  proof (cases "rc1 = None \<and> tried = Some EAGAIN \<and> uint now < uint now0 + t")
    case True
    with k Cons.prems(2) have "wait_loop cfg act (deadline t now0) rounds True (uint now0 + t - uint now) (emit act s1) = Inr (rc, s')"
      by (simp add: left)
    with Cons.IH [of "uint now0 + t - uint now" True "emit act s1"] Cons.prems(1) True show ?thesis
      by (auto simp: r)
  next
    case False
    with k \<open>rc1 \<noteq> Some EAGAIN\<close> Cons.prems(2) show ?thesis
      by (auto simp: r left split: if_splits)
  qed
qed

lemma wait_loop_forever:
  "t < 0 \<Longrightarrow> wait_loop cfg act end_ms rounds block t s = Inr (rc, s') \<Longrightarrow> rc \<noteq> Some (Some EAGAIN)"
proof (induction rounds arbitrary: block s)
  case (Cons r rounds)
  obtain b tried now where r: "r = (b, tried, now)" by (cases r) auto
  from Cons.prems(2) obtain rc1 s1 where
    p: "process_commands cfg (if block then t else 0) False b s = Inr (rc1, s1)"
    and k: "(if rc1 \<noteq> None then Inr (Some rc1, s1)
       else if tried \<noteq> Some EAGAIN then Inr (Some tried, emit act s1)
       else if t > 0 \<and> time_left end_ms now \<le> 0 then Inr (Some (Some EAGAIN), emit act s1)
       else wait_loop cfg act end_ms rounds True (if t > 0 then time_left end_ms now else t) (emit act s1)) = Inr (rc, s')"
    unfolding r wait_loop_step bind_res_Inr_iff by auto
  from Cons.prems(1) have "\<not> 0 < t" by simp
  with commands_errno [OF p] k Cons.IH [OF Cons.prems(1)] show ?case
    by (auto split: if_splits)
qed simp

theorem waiting_keeps_its_limit:
  assumes "wait_loop cfg act (deadline t now0) rounds block t s = Inr (rc, s')" "t < 2 ^ 31"
    and "\<forall>r \<in> set rounds. uint now0 \<le> uint (snd (snd r)) \<and> uint (snd (snd r)) < uint now0 + 2 ^ 31"
  shows "if t < 0 then rc \<noteq> Some (Some EAGAIN)
    else t > 0 \<longrightarrow> (rc = Some (Some EAGAIN) \<longrightarrow> (\<exists>r \<in> set rounds. uint now0 + t \<le> uint (snd (snd r))))
      \<and> (rc = None \<longrightarrow> (\<forall>r \<in> set rounds. uint (snd (snd r)) < uint now0 + t))"
  using wait_loop_time [of t rounds now0 t cfg act block s rc s'] wait_loop_forever [of t cfg act "deadline t now0" rounds block s rc s'] assms
  by simp

theorem waiting_keeps_its_limit_witness:
  "\<exists>s'. wait_loop demo_cfg Xrecv (deadline 100 5000) [(no_commands, Some EAGAIN, 5060), (no_commands, Some EAGAIN, 5100)] True 100 demo_socket
     = Inr (Some (Some EAGAIN), s') \<and> (\<exists>now \<in> {5060, 5100 :: u64}. 5000 + 100 \<le> uint now)"
proof -
  let ?rounds = "[(no_commands, Some EAGAIN, 5060), (no_commands, Some EAGAIN, 5100)] :: round list"
  let ?w = "wait_loop demo_cfg Xrecv (deadline 100 5000) ?rounds True 100 demo_socket"
  have "map_sum id fst ?w = Inr (Some (Some EAGAIN))" by code_simp
  then obtain s' where w: "?w = Inr (Some (Some EAGAIN), s')" by (cases ?w) auto
  from waiting_keeps_its_limit [OF w] w show ?thesis by auto
qed

subsection \<open>Looking at commands while messages are there\<close>

text \<open>
  A program that receives without a pause: each call finds a message at once, and the
  mailbox, when it is looked at, has no commands.
\<close>

definition busy :: "recv_in \<Rightarrow> bool" where
  "busy i \<longleftrightarrow> ri_batch i = Batch 0 [] EAGAIN \<and> ri_first i = None"

fun recv_run :: "config \<Rightarrow> recv_in list \<Rightarrow> socket \<Rightarrow> fault + socket" where
  "recv_run cfg [] s = Inr s"
| "recv_run cfg (i # is) s = bind_res (recv_msg cfg i True False s) (\<lambda>(rc, s'). recv_run cfg is s')"

definition looks :: "socket \<Rightarrow> nat" where
  "looks s = length (filter (\<lambda>e. e = Mailbox_Read) (log s))"

lemma busy_recv:
  assumes "busy i" "\<not> ctx_terminated s" "recv_msg cfg i True False s = Inr (rc, s')"
  shows "rc = Some None \<and> \<not> ctx_terminated s' \<and>
    (if Suc (ticks s) = inbound_poll_rate cfg then ticks s' = 0 \<and> looks s' = Suc (looks s)
     else ticks s' = Suc (ticks s) \<and> looks s' = looks s)"
  using assms
  by (auto simp: busy_def recv_msg_def recv_tick_def finish_recv_def extract_flags_def Let_def looks_def
      bind_res_Inr_iff simp del: process_commands.simps split: if_splits)

lemma div_step:
  assumes "0 < (r :: nat)" "t < r"
  shows "if Suc t = r then (t + Suc n) div r = Suc (n div r) \<and> (t + Suc n) mod r = n mod r
    else (t + Suc n) div r = (Suc t + n) div r \<and> (t + Suc n) mod r = (Suc t + n) mod r"
proof (cases "Suc t = r")
  case True
  then have e: "t + Suc n = n + r" by simp
  have "(n + r) div r = Suc (n div r)" using assms(1) by (simp add: div_add_self2)
  with True show ?thesis unfolding e by simp
qed simp

text \<open>
  C19. The mailbox is not forgotten. A program that receives without a pause looks at the
  mailbox at every \<open>inbound_poll_rate\<close>-th message, exactly.
\<close>

theorem recv_looks_regularly:
  assumes "recv_run cfg is s = Inr s'" "list_all busy is" "\<not> ctx_terminated s" "ticks s < inbound_poll_rate cfg"
  shows "looks s' = looks s + (ticks s + length is) div inbound_poll_rate cfg
    \<and> ticks s' = (ticks s + length is) mod inbound_poll_rate cfg"
  using assms
proof (induction "is" arbitrary: s)
  case (Cons i "is")
  then obtain rc s1 where s1: "recv_msg cfg i True False s = Inr (rc, s1)" "recv_run cfg is s1 = Inr s'"
    by (auto simp: bind_res_Inr_iff)
  from Cons.prems have "busy i" by simp
  note b = busy_recv [OF this Cons.prems(3) s1(1)]
  with Cons.prems(4) have "ticks s1 < inbound_poll_rate cfg" by (auto split: if_splits)
  with Cons.IH [OF s1(2)] Cons.prems b div_step [of "inbound_poll_rate cfg" "ticks s" "length is"] show ?case
    by (auto split: if_splits)
qed simp

definition demo_recv :: recv_in where
  "demo_recv = \<lparr>ri_batch = no_commands, ri_first = None, ri_again = (no_commands, None), ri_now = 0, ri_rounds = [],
     ri_got = \<lparr>msg_more = False, is_routing_id = False, has_metadata = False\<rparr>\<rparr>"

lemma busy_demo [simp]: "busy demo_recv"
  by (simp add: busy_def demo_recv_def no_commands_def)

theorem recv_looks_regularly_witness:
  "\<exists>s'. recv_run (demo_cfg\<lparr>inbound_poll_rate := 2\<rparr>) (replicate 5 demo_recv) demo_socket = Inr s' \<and> looks s' = 2 \<and> ticks s' = 1"
proof -
  let ?cfg = "demo_cfg\<lparr>inbound_poll_rate := 2\<rparr>"
  let ?r = "recv_run ?cfg (replicate 5 demo_recv) demo_socket"
  have "map_sum id (\<lambda>s. True) ?r = Inr True" by code_simp
  then obtain s' where s': "?r = Inr s'" by (cases ?r) auto
  have "\<not> ctx_terminated demo_socket" "ticks demo_socket = 0" "looks demo_socket = 0" by code_simp+
  with recv_looks_regularly [OF s'] s' show ?thesis by (simp add: list_all_iff)
qed

text \<open>
  C21. A look that is interrupted is the last. If receiving the commands at such a call is
  interrupted by a signal, the call returns EINTR and leaves the counter where it is; it
  then goes past \<open>inbound_poll_rate\<close>, and a program that receives without a pause does not
  look at the mailbox again, up to the overflow of the counter.
\<close>

theorem interrupted_look_is_the_last:
  assumes "ri_batch i = Batch 0 [] EINTR" "Suc (ticks s) = inbound_poll_rate cfg" "\<not> ctx_terminated s"
    and "recv_msg cfg i True False s = Inr (rc, s1)" "recv_run cfg is s1 = Inr s'" "list_all busy is"
  shows "rc = Some (Some EINTR) \<and> looks s1 = Suc (looks s) \<and> looks s' = looks s1
    \<and> ticks s' = inbound_poll_rate cfg + length is"
proof -
  have later: "looks s' = looks s1 \<and> ticks s' = ticks s1 + length is"
    if "recv_run cfg is s1 = Inr s'" "list_all busy is" "\<not> ctx_terminated s1" "ticks s1 \<ge> inbound_poll_rate cfg" for "is" s1
    using that
  proof (induction "is" arbitrary: s1)
    case (Cons i "is")
    then obtain rc s2 where s2: "recv_msg cfg i True False s1 = Inr (rc, s2)" "recv_run cfg is s2 = Inr s'"
      by (auto simp: bind_res_Inr_iff)
    from Cons.prems have "busy i" by simp
    from busy_recv [OF this Cons.prems(3) s2(1)] Cons.prems(4) Cons.IH [OF s2(2)] Cons.prems(2) show ?case by auto
  qed simp
  have "rc = Some (Some EINTR) \<and> looks s1 = Suc (looks s) \<and> ticks s1 = inbound_poll_rate cfg \<and> \<not> ctx_terminated s1"
    using assms(1-4)
    by (auto simp: recv_msg_def recv_tick_def Let_def looks_def throttled_def note_tsc_def end_commands_def)
  with later [OF assms(5,6)] show ?thesis by auto
qed

theorem interrupted_look_is_the_last_witness:
  "\<exists>s1 s'. recv_msg (demo_cfg\<lparr>inbound_poll_rate := 1\<rparr>) (demo_recv\<lparr>ri_batch := Batch 0 [] EINTR\<rparr>) True False demo_socket
       = Inr (Some (Some EINTR), s1)
     \<and> recv_run (demo_cfg\<lparr>inbound_poll_rate := 1\<rparr>) (replicate 5 demo_recv) s1 = Inr s' \<and> looks s' = looks s1"
proof -
  let ?cfg = "demo_cfg\<lparr>inbound_poll_rate := 1\<rparr>" and ?i = "demo_recv\<lparr>ri_batch := Batch 0 [] EINTR\<rparr>"
  let ?r = "recv_msg ?cfg ?i True False demo_socket"
  have "map_sum id (\<lambda>(rc, s). (rc, map_sum id (\<lambda>s. True) (recv_run ?cfg (replicate 5 demo_recv) s))) ?r
      = Inr (Some (Some EINTR), Inr True)" by code_simp
  then obtain s1 where s1: "?r = Inr (Some (Some EINTR), s1)"
    "map_sum id (\<lambda>s. True) (recv_run ?cfg (replicate 5 demo_recv) s1) = Inr True" by (cases ?r) auto
  then obtain s' where s': "recv_run ?cfg (replicate 5 demo_recv) s1 = Inr s'"
    by (cases "recv_run ?cfg (replicate 5 demo_recv) s1") auto
  have "Suc (ticks demo_socket) = inbound_poll_rate ?cfg" "\<not> ctx_terminated demo_socket" by code_simp+
  with interrupted_look_is_the_last [OF _ _ _ s1(1) s'] s1 s' show ?thesis by (simp add: list_all_iff)
qed

subsection \<open>Looking at commands while sending\<close>









end
