(* ===== verification/Socket_Life.thy ===== *)
theory Socket_Life
  imports Socket_Guarantees
begin

section \<open>The end of a socket\<close>



text \<open>
  The life of a socket, as its log shows it: it is in use, closed, reaped, and then removed
  from the poller, from the context and from the reaper, and deallocated. In the last steps
  nothing else happens to it, and nothing at all after them.
\<close>

datatype phase = In_Use | Closed | Reaped | Unpolled | Forgotten | Reported | Gone

fun life_step :: "effect \<Rightarrow> phase \<Rightarrow> phase option" where
  "life_step Signalers_Cleared ph = (if ph = In_Use then Some In_Use else None)"
| "life_step Send_Reap ph = (if ph = In_Use then Some Closed else None)"
| "life_step Reaper_Signaled ph = (if ph = Closed then Some Closed else None)"
| "life_step Poller_Add ph = (if ph = Closed then Some Reaped else None)"
| "life_step Own_Terminate ph = (if ph = Reaped then Some Reaped else None)"
| "life_step Poller_Remove ph = (if ph = Reaped then Some Unpolled else None)"
| "life_step Destroy_Socket ph = (if ph = Unpolled then Some Forgotten else None)"
| "life_step Send_Reaped ph = (if ph = Forgotten then Some Reported else None)"
| "life_step Own_Process_Destroy ph = (if ph = Reported then Some Gone else None)"
| "life_step e ph = (if ph \<in> {In_Use, Reaped} then Some ph else None)"

fun life_track :: "effect list \<Rightarrow> phase \<Rightarrow> phase option" where
  "life_track [] ph = Some ph"
| "life_track (e # es) ph = Option.bind (life_step e ph) (life_track es)"

lemma life_track_append [simp]: "life_track (es @ fs) ph = Option.bind (life_track es ph) (life_track fs)"
proof (induction es arbitrary: ph)
  case (Cons e es)
  then show ?case by (cases "life_step e ph") auto
qed simp














section \<open>The property\<close>





end
