(* ===== verification/Helpers.thy ===== *)
theory Helpers
  imports Threads_Common
begin

section \<open>zhelpers.h and the logging of common.c\<close>

text \<open>
  The helper functions that do more than pass on to a library: strings as messages, the
  random identity and the clock of zhelpers.h (as built outside Windows), and the log
  lines of common.c, which all programs but those of threads/ write.
\<close>

subsection \<open>Strings as messages\<close>

text \<open>
  \<open>s_send\<close> and \<open>s_sendmore\<close> give the message and its flag for more parts. In \<open>s_recv\<close> a message
  of any length arrives: \<^verbatim>\<open>zmq_recv\<close> stores 255 bytes of it at most, but returns its full
  size, at which the terminator is written into the array of 256.
\<close>

definition s_send :: "string \<Rightarrow> string \<times> bool" where
  "s_send str = (str, False)"

definition s_sendmore :: "string \<Rightarrow> string \<times> bool" where
  "s_sendmore str = (str, True)"

definition s_recv :: "string option \<Rightarrow> fault + string option" where
  "s_recv message =
     (case message of
        None \<Rightarrow> Inr None
      | Some m \<Rightarrow>
          let size = length m in
          if size < 256 then Inr (Some (takeWhile (\<lambda>c. c \<noteq> NUL) (take 255 m))) else Inl Buffer_Overflow)"

subsection \<open>A random identity\<close>

text \<open>
  \<open>round_float n\<close> is a natural number rounded to the 24 bits of a \<^verbatim>\<open>float\<close>, to nearest and ties
  to even. \<open>randof_64K\<close> is \<^verbatim>\<open>randof (0x10000)\<close>: the random number becomes a float before it is
  multiplied by a power of two, and the quotient by \<^verbatim>\<open>RAND_MAX + 1.0\<close>, which is 2 to the 31, is
  cut off.
\<close>

definition round_float :: "int \<Rightarrow> int" where
  "round_float n = (let s = bit_len n - 24 in div_even n (2 ^ s) * 2 ^ s)"

definition randof_64K :: "int \<Rightarrow> int" where
  "randof_64K r = (0x10000 * round_float r) div 2 ^ 31"

fun hex_digits :: "nat \<Rightarrow> string" where
  "hex_digits n = (if n < 16 then [''0123456789ABCDEF'' ! n] else hex_digits (n div 16) @ [''0123456789ABCDEF'' ! (n mod 16)])"

declare hex_digits.simps [simp del]

definition pad :: "nat \<Rightarrow> string \<Rightarrow> string" where
  "pad k s = replicate (k - length s) CHR ''0'' @ s"

definition s_set_id :: "int \<Rightarrow> int \<Rightarrow> fault + string" where
  "s_set_id r1 r2 =
     sprintf_buf 10 (pad 4 (hex_digits (nat (randof_64K r1))) @ ''-'' @ pad 4 (hex_digits (nat (randof_64K r2))))"

subsection \<open>Time\<close>

text \<open>C's division goes towards zero.\<close>

definition cdiv :: "int \<Rightarrow> int \<Rightarrow> int" where
  "cdiv a b = sgn a * sgn b * (\<bar>a\<bar> div \<bar>b\<bar>)"

definition s_sleep :: "int \<Rightarrow> int \<times> int" where
  "s_sleep msecs = (cdiv msecs 1000, (msecs - 1000 * cdiv msecs 1000) * 1000000)"

definition s_clock :: "int \<Rightarrow> int \<Rightarrow> int" where
  "s_clock tv_sec tv_usec = tv_sec * 1000 + cdiv tv_usec 1000"

definition getMicros :: "int \<Rightarrow> int \<Rightarrow> int" where
  "getMicros tv_sec tv_usec = tv_sec * 1000000 + tv_usec"

subsection \<open>Log lines\<close>

definition getTimestamp :: "nat \<Rightarrow> nat \<Rightarrow> nat \<Rightarrow> nat \<Rightarrow> fault + string" where
  "getTimestamp h m s us =
     sprintf_buf 64 (pad 2 (dec_of_nat h) @ '':'' @ pad 2 (dec_of_nat m) @ '':'' @ pad 2 (dec_of_nat s) @ ''.''
       @ pad 6 (dec_of_nat us))"

text \<open>
  \<open>formatted\<close> is the text of the format and its arguments, of which \<^verbatim>\<open>vsnprintf\<close> keeps what
  fits before a terminator into 1024 characters; a null format gives an empty line.
\<close>

definition log_msg :: "string \<Rightarrow> string option \<Rightarrow> string" where
  "log_msg timestamp formatted =
     timestamp @ [CHR 0x09] @ (case formatted of None \<Rightarrow> [] | Some f \<Rightarrow> take 1023 f) @ [CHR 0x0A]"

section \<open>Rounding and digits\<close>

lemma bit_len_bounds: "0 < n \<Longrightarrow> 2 ^ (bit_len n - 1) \<le> n \<and> n < 2 ^ bit_len n \<and> 0 < bit_len n"
proof (induction n rule: bit_len.induct)
  case (1 n)
  show ?case
  proof (cases "n = 1")
    case True
    then show ?thesis by (simp add: bit_len.simps)
  next
    case False
    with 1 have "0 < n div 2" "bit_len n = Suc (bit_len (n div 2))" by (simp_all add: bit_len.simps [of n])
    moreover from this 1 have "2 ^ (bit_len (n div 2) - 1) \<le> n div 2" "n div 2 < 2 ^ bit_len (n div 2)"
      "0 < bit_len (n div 2)" by simp_all
    moreover from this(3) have "(2 :: int) ^ bit_len (n div 2) = 2 * 2 ^ (bit_len (n div 2) - 1)"
      by (simp add: power_eq_if)
    moreover have "n = 2 * (n div 2) + n mod 2" "0 \<le> n mod 2" "n mod 2 < 2" by simp_all
    ultimately show ?thesis by (simp only: power_Suc diff_Suc_1 zero_less_Suc) (intro conjI TrueI; linarith)
  qed
qed

lemma bit_len_le: "n < 2 ^ k \<Longrightarrow> bit_len n \<le> k"
proof (rule ccontr)
  assume n: "n < 2 ^ k" "\<not> bit_len n \<le> k"
  then have "0 < n" by (cases "0 < n") (simp_all add: bit_len.simps)
  with bit_len_bounds have "2 ^ (bit_len n - 1) \<le> n" by blast
  moreover have "(2 :: int) ^ k \<le> 2 ^ (bit_len n - 1)" using n(2) by (intro power_increasing) auto
  ultimately show False using n(1) by linarith
qed

text \<open>The largest random numbers round up to 2 to the 31, which no other reaches.\<close>

lemma round_float_top:
  assumes "2 ^ 31 - 64 \<le> r" "r < 2 ^ 31"
  shows "round_float r = 2 ^ 31"
proof -
  have "\<not> bit_len r \<le> 30" using bit_len_bounds [of r] assms power_increasing [of "bit_len r" 30 "2 :: int"] by auto
  moreover have "bit_len r \<le> 31" using assms by (intro bit_len_le)
  ultimately have len: "bit_len r = 31" by simp
  have "r div 128 = 2 ^ 24 - 1"
    using assms by (intro int_div_pos_eq [of _ _ _ "r - 128 * (2 ^ 24 - 1)"]) auto
  moreover from this have "r mod 128 = r - 128 * (2 ^ 24 - 1)" using div_mult_mod_eq [of r 128] by simp
  ultimately show ?thesis using assms(1) by (simp add: round_float_def len div_even_def Let_def)
qed
lemma below_multiple: "0 < d \<Longrightarrow> r < q * d \<Longrightarrow> r div d < q" for d q r :: int
proof (rule ccontr)
  assume d: "0 < d" "r < q * d" "\<not> r div d < q"
  then have "q * d \<le> (r div d) * d" by (intro mult_right_mono) auto
  also have "\<dots> \<le> r" using div_mult_mod_eq [of r d] pos_mod_sign [OF d(1), of r] by linarith
  finally show False using d(2) by simp
qed

lemma round_float_below:
  assumes "0 \<le> r" "r < 2 ^ 31 - 64"
  shows "round_float r < 2 ^ 31"
proof -
  define s where "s = bit_len r - 24"
  have s7: "s \<le> 7" using bit_len_le [of r 31] assms by (simp add: s_def)
  have "r < 2 ^ (24 + s)"
  proof (cases "r = 0")
    case False
    then have "r < 2 ^ bit_len r" using bit_len_bounds [of r] assms by simp
    also have "\<dots> \<le> 2 ^ (24 + s)" by (intro power_increasing) (auto simp: s_def)
    finally show ?thesis .
  qed simp
  then have q: "r div 2 ^ s < 2 ^ 24" by (intro below_multiple) (simp_all add: power_add)
  show ?thesis
  proof (cases "r div 2 ^ s + 1 = 2 ^ 24 \<and> s = 7")
    case True
    then have s: "s = 7" and d: "r div 128 = 2 ^ 24 - 1" by auto
    with assms div_mult_mod_eq [of r 128] have "r mod 128 < 64" by simp
    with d show ?thesis by (simp add: round_float_def s_def [symmetric] s div_even_def Let_def)
  next
    case False
    have le: "div_even r (2 ^ s) \<le> r div 2 ^ s + 1" by (simp add: div_even_def Let_def)
    show ?thesis
    proof (cases "s = 7")
      case True
      with False q le have "div_even r (2 ^ s) < 2 ^ 24" by simp
      then show ?thesis by (simp add: round_float_def s_def [symmetric] True)
    next
      case False
      with s7 have "s \<le> 6" by simp
      from q le have "div_even r (2 ^ s) * 2 ^ s \<le> 2 ^ 24 * 2 ^ s" by (intro mult_right_mono) auto
      also have "\<dots> \<le> (2 :: int) ^ 24 * 2 ^ 6" using \<open>s \<le> 6\<close> by (intro mult_left_mono power_increasing) auto
      finally show ?thesis by (simp add: round_float_def s_def [symmetric])
    qed
  qed
qed

lemma length_hex_digits: "n < 16 ^ Suc k \<Longrightarrow> length (hex_digits n) \<le> Suc k"
proof (induction k arbitrary: n)
  case 0
  then show ?case by (simp add: hex_digits.simps)
next
  case (Suc k)
  then have "n div 16 < 16 ^ Suc k" by (simp add: div_less_iff_less_mult mult.commute)
  with Suc.IH [of "n div 16"] show ?case by (simp add: hex_digits.simps [of n])
qed

lemma hex_64K: "length (hex_digits 65536) = 5"
  by (simp add: hex_digits.simps)

lemma length_pad: "length (pad k s) = max k (length s)"
  by (simp add: pad_def)

lemma identity_half:
  assumes "0 \<le> r" "r < 2 ^ 31"
  shows "length (pad 4 (hex_digits (nat (randof_64K r)))) = (if 2 ^ 31 - 64 \<le> r then 5 else 4)"
proof (cases "2 ^ 31 - 64 \<le> r")
  case True
  with assms(2) have "randof_64K r = 65536" by (simp add: randof_64K_def round_float_top)
  with True show ?thesis by (simp add: length_pad hex_64K)
next
  case False
  then have "round_float r < 2 ^ 31" using assms by (intro round_float_below) auto
  then have "randof_64K r < 65536" by (simp add: randof_64K_def)
  then have "nat (randof_64K r) < 16 ^ Suc 3" by simp
  from length_hex_digits [OF this] False show ?thesis by (simp add: length_pad)
qed

section \<open>The properties\<close>

text \<open>
  C35. Strings as messages. A string sent with \<open>s_send\<close> is received by \<open>s_recv\<close> as it was if it has
  at most 255 characters; a longer one makes the receiver write behind its array.
\<close>

theorem s_recv_what_was_sent:
  assumes "no_nul str"
  shows "s_recv (Some (fst (s_send str))) = (if length str \<le> 255 then Inr (Some str) else Inl Buffer_Overflow)"
  using assms by (simp add: s_recv_def s_send_def no_nul_def takeWhile_eq_all_conv) (metis)

theorem s_recv_what_was_sent_witness:
  "s_recv (Some (fst (s_send ''READY''))) = Inr (Some ''READY'')"
  using s_recv_what_was_sent [of "''READY''"] by (simp add: no_nul_def)

text \<open>
  C34. The random identity. It overruns its array of 10 exactly if one of the two random
  numbers is among the 64 largest: as a float it is rounded up, and the number below 65536
  that is printed becomes 65536, with five digits.
\<close>

theorem s_set_id_overflow:
  assumes "0 \<le> r1" "r1 < 2 ^ 31" "0 \<le> r2" "r2 < 2 ^ 31"
  shows "if 2 ^ 31 - 64 \<le> r1 \<or> 2 ^ 31 - 64 \<le> r2 then s_set_id r1 r2 = Inl Buffer_Overflow
    else \<exists>identity. s_set_id r1 r2 = Inr identity \<and> length identity = 9"
  using identity_half [OF assms(1,2)] identity_half [OF assms(3,4)]
  by (simp add: s_set_id_def sprintf_buf_def)

theorem s_set_id_overflow_witness:
  "s_set_id 0 2147483647 = Inl Buffer_Overflow \<and> (\<exists>identity. s_set_id 1000000 2000000000 = Inr identity)"
  using s_set_id_overflow [of 0 2147483647] s_set_id_overflow [of 1000000 2000000000] by auto

text \<open>
  Log lines. The time stamp of any time of day fits its array, and takes 15 characters, so
  that columns of a log line up; a line has at most 1023 characters of the text, in order,
  between a tabulator and its end.
\<close>

lemma length_dec_of_nat: "n < 10 ^ Suc k \<Longrightarrow> length (dec_of_nat n) \<le> Suc k"
proof (induction k arbitrary: n)
  case 0
  then show ?case by (simp add: dec_of_nat.simps)
next
  case (Suc k)
  then have "n div 10 < 10 ^ Suc k" by (simp add: div_less_iff_less_mult mult.commute)
  with Suc.IH [of "n div 10"] show ?case by (simp add: dec_of_nat.simps [of n])
qed

theorem log_line:
  assumes "h < 24" "m < 60" "s \<le> 60" "us < 1000000"
  shows "\<exists>stamp. getTimestamp h m s us = Inr stamp \<and> length stamp = 15
    \<and> prefix (stamp @ [CHR 0x09] @ take 1023 text) (log_msg stamp (Some text))
    \<and> length (log_msg stamp (Some text)) \<le> 1040"
proof -
  have "length (dec_of_nat h) \<le> 2" "length (dec_of_nat m) \<le> 2" "length (dec_of_nat s) \<le> 2" "length (dec_of_nat us) \<le> 6"
    using length_dec_of_nat [of h 1] length_dec_of_nat [of m 1] length_dec_of_nat [of s 1] length_dec_of_nat [of us 5] assms
    by auto
  then show ?thesis by (simp add: getTimestamp_def sprintf_buf_def length_pad log_msg_def prefix_def)
qed

theorem log_line_witness:
  "\<exists>stamp. getTimestamp 23 59 60 999999 = Inr stamp \<and> length stamp = 15"
  using log_line [of 23 59 60 999999] by simp blast

end
