(* ===== verification/Dump.thy ===== *)
theory Dump
  imports Helpers
begin

section \<open>Printing messages, the rest of zhelpers.h\<close>

text \<open>
  \<open>s_dump\<close> prints all parts of a message, \<open>s_console\<close> a line with date and time. What they
  print is their result. \<open>s_dump\<close> is given the return codes of the calls that make and
  release the message, and what its receives give: the part, or \<open>None\<close> for a failure, and
  whether there are more. Its result tells whether it has seen the last part; otherwise
  it still waits.
\<close>

definition newline :: char where
  "newline = CHR 0x0A"

definition is_text :: "string \<Rightarrow> bool" where
  "is_text data = list_all (\<lambda>c. \<not> (of_char c < (32 :: nat) \<or> of_char c > (126 :: nat))) data"

definition hex2 :: "char \<Rightarrow> string" where
  "hex2 c = pad 2 (hex_digits (of_char c))"

definition dump_part :: "string \<Rightarrow> string" where
  "dump_part data =
     ''['' @ pad 3 (dec_of_nat (length data)) @ ''] ''
     @ concat (map (\<lambda>c. if is_text data then [c] else hex2 c) data) @ [newline]"

fun dump_parts :: "(string option \<times> bool) list \<Rightarrow> fault + string \<times> bool" where
  "dump_parts [] = Inr ([], False)"
| "dump_parts ((None, again) # received) = Inl Assert_Failed"
| "dump_parts ((Some data, again) # received) =
     bind_res (if again then dump_parts received else Inr ([], True)) (\<lambda>(out, ended).
       Inr (dump_part data @ out, ended))"

definition s_dump :: "int \<Rightarrow> (string option \<times> bool) list \<Rightarrow> int \<Rightarrow> fault + string \<times> bool" where
  "s_dump rc_init received rc_close =
     bind_res (require (rc_init = 0) Assert_Failed) (\<lambda>_.
     bind_res (dump_parts received) (\<lambda>(out, ended).
     bind_res (if ended then require (rc_close = 0) Assert_Failed else Inr ()) (\<lambda>_.
       Inr (replicate 40 CHR ''-'' @ [newline] @ out, ended))))"

text \<open>
  \<^verbatim>\<open>strftime\<close> leaves the contents of its array open when they do not fit. \<open>formatted\<close> is the
  text of the format and its arguments; the year is printed with two digits.
\<close>

definition strftime_buf :: "nat \<Rightarrow> string \<Rightarrow> fault + string" where
  "strftime_buf n s = (if length s < n then Inr s else Inl Unterminated)"

definition s_console :: "nat \<Rightarrow> nat \<Rightarrow> nat \<Rightarrow> nat \<Rightarrow> nat \<Rightarrow> nat \<Rightarrow> string \<Rightarrow> fault + string" where
  "s_console year month day hour minute second formatted =
     (let two = (\<lambda>n. pad 2 (dec_of_nat n))
      in bind_res (strftime_buf 20 (two (year mod 100) @ ''-'' @ two month @ ''-'' @ two day @ '' ''
                     @ two hour @ '':'' @ two minute @ '':'' @ two second @ '' '')) (\<lambda>stamp.
           Inr (stamp @ formatted @ [newline])))"

section \<open>What is printed tells what was received\<close>

lemma split_first:
  assumes "\<forall>c \<in> set xs. P c" "\<forall>c \<in> set ys. P c" "\<not> P a" "xs @ a # u = ys @ a # v"
  shows "xs = ys \<and> u = v"
proof -
  have "takeWhile P (xs @ a # u) = xs" "takeWhile P (ys @ a # v) = ys"
    using assms(1-3) by (simp_all add: takeWhile_append2)
  with assms(4) have "xs = ys" by metis
  with assms(4) show ?thesis by simp
qed

definition hex_alphabet :: string where
  "hex_alphabet = ''0123456789ABCDEF''"

lemma hex2_digits: "hex2 c = [hex_alphabet ! (of_char c div 16), hex_alphabet ! (of_char c mod 16)]"
proof -
  have "hex_digits n = (if n < 16 then [hex_alphabet ! n] else [hex_alphabet ! (n div 16), hex_alphabet ! (n mod 16)])"
    if "n < 256" for n
    using that by (simp add: hex_digits.simps [of n] hex_digits.simps [of "n div 16"] hex_alphabet_def less_mult_imp_div_less)
  moreover have "(of_char c :: nat) < 256" by simp
  ultimately show ?thesis by (simp add: hex2_def pad_def) (simp add: hex_alphabet_def)
qed

lemma hex_alphabet_nth:
  "i < 16 \<Longrightarrow> j < 16 \<Longrightarrow> hex_alphabet ! i = hex_alphabet ! j \<longleftrightarrow> i = j"
  by (rule nth_eq_iff_index_eq) (simp_all add: hex_alphabet_def)

lemma hex2_inj: "hex2 c = hex2 d \<Longrightarrow> c = d"
proof -
  assume "hex2 c = hex2 d"
  moreover have "(of_char c :: nat) < 256" "(of_char d :: nat) < 256" by simp_all
  ultimately have "(of_char c :: nat) div 16 = of_char d div 16" "(of_char c :: nat) mod 16 = of_char d mod 16"
    by (simp_all add: hex2_digits hex_alphabet_nth)
  then have "(of_char c :: nat) = of_char d" by (metis div_mult_mod_eq)
  then show "c = d" by simp
qed

lemma length_hex2 [simp]: "length (hex2 c) = 2"
  by (simp add: hex2_digits)

lemma hex2_nonempty [simp]: "hex2 c \<noteq> []"
  by (simp add: hex2_digits)

lemma length_hexes: "length (concat (map hex2 data)) = 2 * length data"
  by (induction data) simp_all

lemma hexes_inj: "concat (map hex2 xs) = concat (map hex2 ys) \<Longrightarrow> xs = ys"
proof (induction xs arbitrary: ys)
  case Nil
  then show ?case by (cases ys) auto
next
  case (Cons x xs)
  then obtain y ys' where ys: "ys = y # ys'" by (cases ys) auto
  with Cons.prems have "hex2 x = hex2 y" "concat (map hex2 xs) = concat (map hex2 ys')"
    by (simp_all add: append_eq_append_conv)
  with Cons.IH ys show ?case using hex2_inj by blast
qed

definition dump_body :: "string \<Rightarrow> string" where
  "dump_body data = (if is_text data then data else concat (map hex2 data))"

lemma dump_part_eq: "dump_part data = ''['' @ pad 3 (dec_of_nat (length data)) @ CHR '']'' # CHR '' '' # dump_body data @ [newline]"
  by (simp add: dump_part_def dump_body_def)

lemma length_dump_body: "length (dump_body data) = (if is_text data then length data else 2 * length data)"
  by (simp add: dump_body_def length_hexes)

lemma dump_body_inj:
  assumes "dump_body d = dump_body e" "length d = length e"
  shows "d = e"
proof (cases "is_text d \<longleftrightarrow> is_text e")
  case True
  with assms(1) show ?thesis by (auto simp: dump_body_def hexes_inj split: if_splits)
next
  case False
  with assms length_dump_body [of d] length_dump_body [of e] have "length d = 0" by (auto split: if_splits)
  with assms(2) show ?thesis by simp
qed

lemma dump_body_line: "\<forall>c \<in> set (dump_body data). c \<noteq> newline"
proof -
  have no_newline: "hex_alphabet ! i \<noteq> newline" if "i < 16" for i
    using that nth_mem [of i hex_alphabet] by (auto simp: hex_alphabet_def newline_def)
  have "hex_alphabet ! (of_char d div 16) \<noteq> newline" "hex_alphabet ! (of_char d mod 16) \<noteq> newline" for d :: char
    by (rule no_newline, simp add: less_mult_imp_div_less)+
  then have "c \<noteq> newline" if "c \<in> set (hex2 d)" for c d using that unfolding hex2_digits by auto metis+
  moreover have "c \<noteq> newline" if "is_text data" "c \<in> set data" for c
    using that by (auto simp: is_text_def list_all_iff newline_def)
  ultimately show ?thesis by (auto simp: dump_body_def)
qed

lemma pad_digits:
  "\<forall>c \<in> set (pad k (dec_of_nat n)). is_digit c" "digits_value 0 (pad k (dec_of_nat n)) = int n"
proof -
  have z: "is_digit CHR ''0''" by (simp add: is_digit_def)
  then show "\<forall>c \<in> set (pad k (dec_of_nat n)). is_digit c"
    using dec_of_nat_digits [of n] by (auto simp: pad_def)
  have "digits_value 0 (replicate j CHR ''0'' @ s) = digits_value 0 s" for j s
    by (induction j) (use z in simp_all)
  then show "digits_value 0 (pad k (dec_of_nat n)) = int n"
    by (simp add: pad_def digits_value_dec_of_nat)
qed

lemma dump_part_inj:
  assumes "dump_part d @ r = dump_part e @ r'"
  shows "d = e \<and> r = r'"
proof -
  have "pad 3 (dec_of_nat (length d)) @ CHR '']'' # (CHR '' '' # dump_body d @ [newline] @ r)
      = pad 3 (dec_of_nat (length e)) @ CHR '']'' # (CHR '' '' # dump_body e @ [newline] @ r')"
    using assms by (simp add: dump_part_eq)
  from split_first [OF pad_digits(1) pad_digits(1) _ this]
  have p: "pad 3 (dec_of_nat (length d)) = pad 3 (dec_of_nat (length e))"
    "dump_body d @ newline # r = dump_body e @ newline # r'" by (simp_all add: is_digit_def)
  from p(1) have "length d = length e" using pad_digits(2) by (metis of_nat_eq_iff)
  with split_first [OF dump_body_line dump_body_line _ p(2)] show ?thesis by (auto intro: dump_body_inj)
qed

text \<open>What a receiver gets of the parts sent, the last with \<open>s_send\<close> and the others with \<open>s_sendmore\<close>.\<close>

definition multipart :: "string list \<Rightarrow> (string option \<times> bool) list" where
  "multipart ds = map (\<lambda>d. map_prod Some id (s_sendmore d)) (butlast ds) @ [map_prod Some id (s_send (last ds))]"

lemma dump_multipart: "ds \<noteq> [] \<Longrightarrow> dump_parts (multipart ds) = Inr (concat (map dump_part ds), True)"
  by (induction ds) (auto simp: multipart_def s_send_def s_sendmore_def)

lemma dump_part_nonempty: "dump_part d \<noteq> []"
  by (simp add: dump_part_def)

lemma dumps_inj: "concat (map dump_part ds) = concat (map dump_part es) \<Longrightarrow> ds = es"
proof (induction ds arbitrary: es)
  case Nil
  then show ?case by (cases es) (auto simp: dump_part_nonempty)
next
  case (Cons d ds)
  then obtain e es' where es: "es = e # es'" by (cases es) (auto simp: dump_part_nonempty)
  with Cons.prems have "dump_part d @ concat (map dump_part ds) = dump_part e @ concat (map dump_part es')" by simp
  from dump_part_inj [OF this] have "d = e" "concat (map dump_part ds) = concat (map dump_part es')" by auto
  with Cons.IH es show ?case by blast
qed

text \<open>
  C33. The dump of a message. \<open>s_dump\<close> prints every part of a message sent with \<open>s_sendmore\<close> and
  \<open>s_send\<close> and stops after the last; and what it prints determines the parts, byte by byte,
  although it prints some as text and others in hexadecimal.
\<close>

theorem s_dump_tells_all:
  assumes "ds \<noteq> []" "es \<noteq> []"
  shows "(\<exists>out. s_dump 0 (multipart ds) 0 = Inr (out, True))
    \<and> (s_dump 0 (multipart ds) 0 = s_dump 0 (multipart es) 0 \<longleftrightarrow> ds = es)"
proof -
  define dashes where "dashes = replicate 40 CHR ''-'' @ [newline]"
  have out: "s_dump 0 (multipart xs) 0 = Inr (dashes @ concat (map dump_part xs), True)" if "xs \<noteq> []" for xs
    using dump_multipart [OF that] by (simp add: s_dump_def dashes_def)
  show ?thesis using dumps_inj [of ds es] by (auto simp: out assms)
qed

theorem s_dump_tells_all_witness:
  "s_dump 0 (multipart [''AB'', [CHR 0x00]]) 0 \<noteq> s_dump 0 (multipart [''AB'', ''00'']) 0"
  using s_dump_tells_all [of "[''AB'', [CHR 0x00]]" "[''AB'', ''00'']"] by simp

text \<open>A line of \<open>s_console\<close> starts with a time stamp of 18 characters, which fits its array.\<close>

lemma s_console_line:
  assumes "month < 100" "day < 100" "hour < 100" "minute < 100" "second < 100"
  shows "\<exists>stamp. s_console year month day hour minute second formatted = Inr (stamp @ formatted @ [newline])
    \<and> length stamp = 18"
proof -
  have "length (pad 2 (dec_of_nat n)) = 2" if "n < 100" for n
    using that length_dec_of_nat [of n 1] by (simp add: length_pad)
  with assms show ?thesis by (simp add: s_console_def strftime_buf_def Let_def)
qed

end
