(* ===== verification/Relay.thy ===== *)
theory Relay
  imports Helpers "HOL-Library.AList"
begin

section \<open>The relay, threads/sample.c\<close>

text \<open>
  Three threads pass a signal on: each connects a pair socket to one its predecessor has
  bound, inside the process. The functions are the lists of the calls they make; sockets
  are named after their thread and variable. \<open>relay_exec\<close> runs the next call of a thread, or
  is \<open>None\<close> while the call waits: a receive for a message, a send for a connection, the end
  of the context for the last socket to be closed. A message stays with the endpoint when
  its sender closes, as it does in libzmq, whose default is to linger.
\<close>

definition inproc2 :: string where "inproc2 = ''inproc://step2''"
definition inproc3 :: string where "inproc3 = ''inproc://step3''"

abbreviation receiver3 :: handle where "receiver3 \<equiv> Var ''main.receiver''"
abbreviation receiver2 :: handle where "receiver2 \<equiv> Var ''step2.receiver''"
abbreviation xmitter2 :: handle where "xmitter2 \<equiv> Var ''step2.xmitter''"
abbreviation xmitter1 :: handle where "xmitter1 \<equiv> Var ''step1.xmitter''"

definition send_ready :: "handle \<Rightarrow> string zcall" where
  "send_ready h = Send h (fst (s_send ''READY'')) False"

definition step1 :: "string zcall list" where
  "step1 = [Socket xmitter1 ZMQ_PAIR, Connect xmitter1 inproc2, send_ready xmitter1, Close xmitter1]"

definition step2 :: "string zcall list" where
  "step2 =
    [Socket receiver2 ZMQ_PAIR, Bind receiver2 inproc2, Thread_Create ''step1'',
     Recv receiver2 False, Close receiver2,
     Socket xmitter2 ZMQ_PAIR, Connect xmitter2 inproc3, send_ready xmitter2, Close xmitter2]"

definition relay_main :: "string zcall list" where
  "relay_main =
    [Ctx_New, Socket receiver3 ZMQ_PAIR, Bind receiver3 inproc3, Thread_Create ''step2'',
     Recv receiver3 False, Close receiver3, Ctx_Term]"

text \<open>The sockets of the program, the threads and the endpoints are listed from the start.\<close>

record pair_socket =
  opened :: bool
  bound_to :: "string option"
  connected_to :: "string option"
  strings :: "string list"

definition unopened :: pair_socket where
  "unopened = \<lparr>opened = False, bound_to = None, connected_to = None, strings = []\<rparr>"

record relay =
  todo :: "(string \<times> string zcall list) list"
  sockets :: "(handle \<times> pair_socket) list"
  pending :: "(string \<times> string list) list"

definition relay_init :: relay where
  "relay_init = \<lparr>todo = [(''main'', relay_main), (''step2'', []), (''step1'', [])],
     sockets = [(receiver3, unopened), (receiver2, unopened), (xmitter2, unopened), (xmitter1, unopened)],
     pending = [(inproc3, []), (inproc2, [])]\<rparr>"

definition relay_functions :: "string \<Rightarrow> string zcall list" where
  "relay_functions f = (if f = ''step1'' then step1 else if f = ''step2'' then step2 else [])"

definition sock :: "relay \<Rightarrow> handle \<Rightarrow> pair_socket" where
  "sock S h = (case map_of (sockets S) h of None \<Rightarrow> unopened | Some x \<Rightarrow> x)"

definition set_sock :: "handle \<Rightarrow> pair_socket \<Rightarrow> relay \<Rightarrow> relay" where
  "set_sock h x S = S\<lparr>sockets := AList.update h x (sockets S)\<rparr>"

definition messages_at :: "relay \<Rightarrow> string \<Rightarrow> string list" where
  "messages_at S e = (case map_of (pending S) e of None \<Rightarrow> [] | Some ms \<Rightarrow> ms)"

definition is_bound :: "relay \<Rightarrow> string \<Rightarrow> bool" where
  "is_bound S e = list_ex (\<lambda>(h, x). opened x \<and> bound_to x = Some e) (sockets S)"

fun relay_call :: "string zcall \<Rightarrow> relay \<Rightarrow> relay option" where
  "relay_call Ctx_New S = Some S"
| "relay_call (Socket h k) S = Some (set_sock h (unopened\<lparr>opened := True\<rparr>) S)"
| "relay_call (Bind h e) S = (if opened (sock S h) then Some (set_sock h ((sock S h)\<lparr>bound_to := Some e\<rparr>) S) else None)"
| "relay_call (Connect h e) S = (if opened (sock S h) then Some (set_sock h ((sock S h)\<lparr>connected_to := Some e\<rparr>) S) else None)"
| "relay_call (Thread_Create f) S = Some (S\<lparr>todo := AList.update f (relay_functions f) (todo S)\<rparr>)"
| "relay_call (Send h m nowait) S =
     (case connected_to (sock S h) of None \<Rightarrow> None
      | Some e \<Rightarrow> if opened (sock S h) \<and> is_bound S e
                  then Some (S\<lparr>pending := AList.update e (messages_at S e @ [m]) (pending S)\<rparr>) else None)"
| "relay_call (Recv h nowait) S =
     (case bound_to (sock S h) of None \<Rightarrow> None
      | Some e \<Rightarrow> (case messages_at S e of [] \<Rightarrow> None
          | m # ms \<Rightarrow> (case s_recv (Some m) of Inl f \<Rightarrow> None
              | Inr r \<Rightarrow> (case r of None \<Rightarrow> None
                  | Some str \<Rightarrow> Some (set_sock h ((sock S h)\<lparr>strings := strings (sock S h) @ [str]\<rparr>)
                      (S\<lparr>pending := AList.update e ms (pending S)\<rparr>))))))"
| "relay_call (Close h) S =
     (if opened (sock S h) then Some (set_sock h ((sock S h)\<lparr>opened := False\<rparr>) S) else None)"
| "relay_call Ctx_Term S = (if list_ex (\<lambda>(h, x). opened x) (sockets S) then None else Some S)"
| "relay_call c S = None"

definition relay_exec :: "string \<Rightarrow> relay \<Rightarrow> relay option" where
  "relay_exec f S =
     (case map_of (todo S) f of None \<Rightarrow> None
      | Some [] \<Rightarrow> None
      | Some (c # cs) \<Rightarrow> relay_call c (S\<lparr>todo := AList.update f cs (todo S)\<rparr>))"

text \<open>A run is given by the order in which the threads take their turns.\<close>

fun relay_run :: "string list \<Rightarrow> relay \<Rightarrow> relay option" where
  "relay_run [] S = Some S"
| "relay_run (f # fs) S = Option.bind (relay_exec f S) (relay_run fs)"

text \<open>The state at the end, and the endpoints about to be connected to.\<close>

definition relay_done :: "relay \<Rightarrow> bool" where
  "relay_done S \<longleftrightarrow> list_all (\<lambda>(f, cs). cs = []) (todo S) \<and> list_all (\<lambda>(h, x). \<not> opened x) (sockets S)
     \<and> strings (sock S receiver2) = [''READY''] \<and> strings (sock S receiver3) = [''READY'']"

definition connects_bound :: "relay \<Rightarrow> bool" where
  "connects_bound S \<longleftrightarrow>
     list_all (\<lambda>(f, cs). case cs of [] \<Rightarrow> True | c # _ \<Rightarrow> (case c of Connect h e \<Rightarrow> is_bound S e | _ \<Rightarrow> True)) (todo S)"

section \<open>The states that can be reached\<close>

text \<open>The state when the threads have made their first \<open>m\<close>, \<open>k\<close> and \<open>l\<close> calls.\<close>

definition relay_state :: "nat \<times> nat \<times> nat \<Rightarrow> relay" where
  "relay_state mkl = (case mkl of (m, k, l) \<Rightarrow>
    \<lparr>todo = [(''main'', drop m relay_main), (''step2'', if 4 \<le> m then drop k step2 else []),
             (''step1'', if 3 \<le> k then drop l step1 else [])],
     sockets =
      [(receiver3, \<lparr>opened = (2 \<le> m \<and> m < 6), bound_to = (if 3 \<le> m then Some inproc3 else None),
          connected_to = None, strings = (if 5 \<le> m then [''READY''] else [])\<rparr>),
       (receiver2, \<lparr>opened = (1 \<le> k \<and> k < 5), bound_to = (if 2 \<le> k then Some inproc2 else None),
          connected_to = None, strings = (if 4 \<le> k then [''READY''] else [])\<rparr>),
       (xmitter2, \<lparr>opened = (6 \<le> k \<and> k < 9), bound_to = None,
          connected_to = (if 7 \<le> k then Some inproc3 else None), strings = []\<rparr>),
       (xmitter1, \<lparr>opened = (1 \<le> l \<and> l < 4), bound_to = None,
          connected_to = (if 2 \<le> l then Some inproc2 else None), strings = []\<rparr>)],
     pending = [(inproc3, if 8 \<le> k \<and> m < 5 then [''READY''] else []),
                (inproc2, if 3 \<le> l \<and> k < 4 then [''READY''] else [])]\<rparr>)"

definition relay_pcs :: "(nat \<times> nat \<times> nat) list" where
  "relay_pcs =
     [(0,0,0), (1,0,0), (2,0,0), (3,0,0), (4,0,0), (4,1,0), (4,2,0),
      (4,3,0), (4,3,1), (4,3,2), (4,3,3), (4,3,4), (4,4,3), (4,4,4), (4,5,3), (4,5,4),
      (4,6,3), (4,6,4), (4,7,3), (4,7,4), (4,8,3), (4,8,4), (4,9,3), (4,9,4),
      (5,8,3), (5,8,4), (5,9,3), (5,9,4), (6,8,3), (6,8,4), (6,9,3), (6,9,4), (7,9,4)]"

text \<open>Each of them is checked: what each thread does next, and what the property below says.\<close>

definition relay_threads :: "string list" where
  "relay_threads = [''main'', ''step2'', ''step1'']"

definition relay_next :: "string \<Rightarrow> nat \<times> nat \<times> nat \<Rightarrow> nat \<times> nat \<times> nat" where
  "relay_next f mkl = (case mkl of (m, k, l) \<Rightarrow>
     if f = ''main'' then (Suc m, k, l) else if f = ''step2'' then (m, Suc k, l) else (m, k, Suc l))"

definition calls_made :: "nat \<times> nat \<times> nat \<Rightarrow> nat" where
  "calls_made mkl = (case mkl of (m, k, l) \<Rightarrow> m + k + l)"

lemma relay_closed:
  "list_all (\<lambda>p. list_all (\<lambda>f. relay_exec f (relay_state p) =
     (if relay_next f p \<in> set relay_pcs then Some (relay_state (relay_next f p)) else None)) relay_threads) relay_pcs"
  by code_simp

lemma relay_checked:
  "list_all (\<lambda>p. calls_made p \<le> 20 \<and> (calls_made p = 20 \<longleftrightarrow> relay_done (relay_state p))
     \<and> (calls_made p < 20 \<longrightarrow> list_ex (\<lambda>f. relay_next f p \<in> set relay_pcs) relay_threads)
     \<and> connects_bound (relay_state p)) relay_pcs"
  by code_simp

lemma relay_exec_state:
  assumes "p \<in> set relay_pcs"
  shows "relay_exec f (relay_state p) = Some S' \<longleftrightarrow>
    f \<in> set relay_threads \<and> relay_next f p \<in> set relay_pcs \<and> S' = relay_state (relay_next f p)"
proof (cases "f \<in> set relay_threads")
  case True
  with relay_closed assms have "relay_exec f (relay_state p) =
    (if relay_next f p \<in> set relay_pcs then Some (relay_state (relay_next f p)) else None)"
    by (simp add: list_all_iff)
  with True show ?thesis by auto
next
  case False
  then show ?thesis
    by (auto simp: relay_threads_def relay_exec_def relay_state_def split: prod.splits)
qed

lemma calls_made_next: "f \<in> set relay_threads \<Longrightarrow> calls_made (relay_next f p) = Suc (calls_made p)"
  by (auto simp: relay_threads_def relay_next_def calls_made_def split: prod.splits)

lemma relay_run_state:
  "p \<in> set relay_pcs \<Longrightarrow> relay_run fs (relay_state p) = Some S \<Longrightarrow>
     \<exists>q \<in> set relay_pcs. S = relay_state q \<and> calls_made q = calls_made p + length fs"
proof (induction fs arbitrary: p)
  case Nil
  then show ?case by auto
next
  case (Cons f fs)
  from Cons.prems(2) obtain S1 where s1: "relay_exec f (relay_state p) = Some S1" "relay_run fs S1 = Some S"
    by (auto simp: bind_eq_Some_conv)
  with relay_exec_state [OF Cons.prems(1)] have f: "f \<in> set relay_threads" "relay_next f p \<in> set relay_pcs"
    "S1 = relay_state (relay_next f p)" by auto
  with Cons.IH [OF f(2)] s1(2) calls_made_next [OF f(1)] show ?case by auto
qed

lemma relay_init_state: "relay_init = relay_state (0, 0, 0)" "(0, 0, 0) \<in> set relay_pcs"
  by (simp_all add: relay_init_def relay_state_def unopened_def relay_pcs_def)

text \<open>
  C32. The relay. In whatever order the threads take their turns, the program ends after exactly
  20 calls: as long as it has made fewer, some thread can go on, also while others wait;
  when it has made 20, the signal has passed both receivers once, all threads have returned,
  all sockets are closed and the context is gone. No thread ever connects to an endpoint
  that is not bound yet.
\<close>

theorem relay_completes:
  assumes "relay_run fs relay_init = Some S"
  shows "length fs \<le> 20 \<and> (length fs = 20 \<longleftrightarrow> relay_done S)
    \<and> (length fs < 20 \<longrightarrow> (\<exists>f S'. relay_exec f S = Some S')) \<and> connects_bound S"
proof -
  have "relay_run fs (relay_state (0, 0, 0)) = Some S" using assms relay_init_state(1) by simp
  from relay_run_state [OF relay_init_state(2) this]
  obtain q where q: "q \<in> set relay_pcs" "S = relay_state q" "calls_made q = length fs"
    by (auto simp: calls_made_def)
  have "calls_made q \<le> 20 \<and> (calls_made q = 20 \<longleftrightarrow> relay_done (relay_state q))
     \<and> (calls_made q < 20 \<longrightarrow> list_ex (\<lambda>f. relay_next f q \<in> set relay_pcs) relay_threads)
     \<and> connects_bound (relay_state q)"
    using relay_checked q(1) by (simp add: list_all_iff)
  with relay_exec_state [OF q(1)] q(2,3) show ?thesis
    by (auto simp: list_ex_iff)
qed

definition relay_schedule :: "string list" where
  "relay_schedule = replicate 4 ''main'' @ replicate 3 ''step2'' @ replicate 3 ''step1'' @ replicate 5 ''step2''
     @ [''main'', ''main'', ''step1'', ''step2'', ''main'']"

lemma relay_schedule_runs: "\<exists>S. relay_run relay_schedule relay_init = Some S"
proof -
  have "case relay_run relay_schedule relay_init of None \<Rightarrow> False | Some S \<Rightarrow> True" by code_simp
  then show ?thesis by (auto split: option.splits)
qed

theorem relay_completes_witness:
  "\<exists>S. relay_run relay_schedule relay_init = Some S \<and> relay_done S"
proof -
  obtain S where S: "relay_run relay_schedule relay_init = Some S" using relay_schedule_runs by blast
  have "length relay_schedule = 20" by (simp add: relay_schedule_def)
  with relay_completes [OF S] S show ?thesis by blast
qed

end
