(* ===== verification/Spec2Isabelle.thy ===== *)
theory Spec2Isabelle
  imports Peer_Properties Monitor_Properties Reconnect Proxy Pingpong Discovery_Properties Threads_Whole
    Peer_Process Socket_Life Dump Relay
begin

text \<open>
  A verification development of the ZeroMQ test programs.

  The program. The repository holds test programs for problems met with ZeroMQ, and one
  patched file of the library itself:
    3186/       peers that find each other through a proxy and connect and disconnect
                dynamically (peer.cpp, proxy.c), with a thread that logs the events of
                their sockets (monitor.cpp) and a parser of the command line (params.c);
    reconnect/, connect/, pingpong/
                smaller programs around the same questions: the peer with a reconnect
                option, clients that only connect, a request and reply pair;
    threads/    four programs that start many threads which send numbered messages to one
                loop, with pair, pub/sub, push/pull and client/server sockets;
    libzmq/4.2.5/mods/src/socket_base.cpp
                libzmq's socket class with a change to term_endpoint.

  How it is modelled. What the programs do to libzmq is the list of calls they make
  (\<open>zcall\<close> in Zmq_Calls), together with the values of their own variables; what libzmq returns is an
  argument. Such a list is replayed against the set of open sockets by \<open>track\<close>. A failed
  assertion, a null pointer, an overrun array, an unterminated string and a division by zero
  are values of \<open>fault\<close> (Prelude). A loop that waits for messages takes the list of what its
  rounds find (\<open>run_loop\<close> in Event_Loop), so that it is defined on every finite input, and its
  result tells whether it has ended; theorems that it ends say after which round.

  The theories, in the order of the code:
    Prelude, Std_Map, C_Strings
                faults and their sequencing, byte images of words, \<^verbatim>\<open>std::map\<close> and \<^verbatim>\<open>std::multimap\<close>
                (locale \<open>dictionary\<close>), C strings, \<^verbatim>\<open>atoi\<close> and \<^verbatim>\<open>strncasecmp\<close>;
    Zmq_Calls, Event_Loop, Interleaving
                calls of libzmq and their checks; loops over inputs, and the locale
                \<open>traced_loop\<close> that carries an invariant on state and trace through a loop;
                the calls of several threads in one trace, and when the whole is in order
                because each thread is (\<open>process_in_order\<close>);
    Arg_Parser, Params
                the loop over argv (locale \<open>arg_body\<close>) and the parsers of all params.c;
    Wire, Peer, Peer_Properties
                3186/common.h, common.c and peer.cpp: the message, the handlers of W, C and D
                messages, a round of the loop, setup, shutdown, \<open>peer_main\<close>;
    Monitor, Monitor_Properties
                monitor.cpp of 3186, reconnect and connect: both versions of the event frames,
                the monitor thread, its start and stop;
    Discovery, Discovery_Properties
                any number of peers and the proxy together: a step relation whose steps are a
                peer that joins, a connection that comes up, and a round of a peer on the
                messages waiting for it;
    Reconnect, Proxy, Pingpong
                the programs of reconnect/ and connect/, both proxies, ping and pong;
    Peer_Process
                both peers together with their monitor thread;
    Threads_Common, Threads_Senders, Threads_System, Threads_Properties, Threads_Whole
                threads/common.h; sendCommand, command thread, main loop and main of the four
                programs; their interleaving as a step relation on the state, and as interleaved
                traces of calls with the destructors of the thread-local sockets, or with the
                control sockets that the threads of clientserver.cpp share;
    Socket_Base, Socket_Monitor, Socket_Pipes, Socket_Commands, Socket_Connect, Socket_Transfer
                socket_base.cpp: state and addresses, monitor, pipes and endpoints, commands,
                connect and bind, send, recv and options;
    Socket_Run, Socket_Properties, Socket_Guarantees, Socket_Life
                runs of operations on a socket; the locale \<open>socket_relation\<close>, which lifts a
                relation from the few functions that touch pipes, monitor and flags to all
                operations of a socket in use, and \<open>socket_life\<close>, which extends it to the end
                of a socket, with their interpretations; the properties; closing, reaping and
                deallocation;
    Helpers, Dump, Relay
                zhelpers.h: strings as messages, random identity and clock, printing of messages
                and of console lines; the log lines of common.c; threads/sample.c.

  What is shown.
    3186: the map of peers refines the membership that the messages received describe, and
    the data socket is connected to exactly the endpoints in it; when the loop ends; what
    it announces; no fault on admissible input; each socket closed once before the
    context, with the linger time asked for. The loop of reconnect/peer.cpp is shown equal to
    that of 3186 with default options.
    Peers and proxy together: in every interleaving, once no message is waiting, the peers
    that are in time and have heard themselves know each other, and no one knows a peer that
    has left (\<open>disc_inv\<close>, an invariant on what each peer will know when it has read what waits
    for it); and from every state reached, rounds alone lead to one where all know all.
    Monitors: an event is read back from its frames, in both versions, unless its address
    overruns the buffer; the thread logs all events in order and ends on the control message.
    Parsers: a well-formed command line is read to its end; an option without its number
    dereferences a null pointer.
    threads: on the state that all interleavings of the threads can reach, where messages
    may be lost, \<open>sys_inv\<close> is an invariant; the exit code is 0 exactly if nothing was lost;
    every run ends (\<open>work\<close> decreases with each step); with a mutex at most one thread of
    pairs.cpp is connected. In every interleaving of the calls of a complete run of any of
    the four programs, and of the two peers with their monitor thread, each call is on an
    open socket, the context is ended last with all sockets closed, and two threads share
    only sockets of the types libzmq makes thread safe.
    socket_base.cpp: only attached pipes are called, which is what the change to term_endpoint is
    for; disconnecting ends exactly the attached pipes of an endpoint; the monitor socket is
    used only while open, and what it sends is what monitor.cpp reads; nothing is done after
    the end of the context; waiting keeps its time limit; the mailbox is looked at
    regularly, by sends and by receives, except after an interruption; a closed socket is
    deallocated once, last of all, when the destroy command has come.
    zhelpers.h: a string sent is the string received up to 255 characters, and an overrun
    beyond; the random identity overruns its array for the 64 largest random numbers; what
    s_dump prints determines the message.
    sample.c: the relay makes 20 calls in any order of its threads and never gets stuck.

  Bounds and fuel. The argument loop has one unit of fuel for each argument and one more,
  which is enough since every round consumes one (\<open>enough_fuel\<close>). Nothing else has fuel. Fields of
  messages, events and clocks are words of their width; counters and options that are
  \<^verbatim>\<open>int\<close> or \<^verbatim>\<open>long\<close> in the code and stay far from their bounds are \<open>int\<close> or \<open>nat\<close>, which the text
  of a property mentions where it matters.

  Assumed of code that is not there. \<open>all_succeed\<close>: calls of libzmq succeed, where a property
  needs it. \<open>erases\<close>: \<^verbatim>\<open>array_t\<close> takes out the pipe it is asked to. \<open>pipes_behave\<close>: a new pipe
  is not attached yet, and only attached pipes report. A message of a thread arrives in the order of sending
  or not at all (\<open>sys_step\<close>). In Discovery the proxy hands each message to all peers that have
  subscribed, in one order, after the welcome message, and what a peer publishes once its connection is up
  reaches the proxy. The reaper calls \<^verbatim>\<open>in_event\<close> as long as its poller has the socket (\<open>reap\<close>). Each is met by the
  witness of the property that has it.

  Not modelled. Text written to the terminal but for the form of log lines, dumps and
  console lines, clocks and uuids (inputs where they matter), and printVersion; the locks and
  signalers of socket_base.cpp beyond their calls, since its operations are run one after the
  other under them; the rest of libzmq; build files and scripts. common.c and most of
  monitor.cpp are the same text in several directories, and are modelled once.
\<close>

end
